theory Spec2Isabelle
  imports Main "HOL-Library.Word" "HOL-Library.Multiset"
begin

unbundle bit_operations_syntax

section \<open>fobsvr: the Keycloak-backed cache of building-access credentials\<close>

text \<open>
  The service keeps the list of members that may open the doors (\<open>AccessUser\<close>) in a
  \<open>cache\<close>, refreshed from Keycloak by the "Keycloak loop" of \<open>main\<close>, and serves it on
  \<open>GET /v1/fobs\<close>.  The repository holds two versions of \<open>main\<close>: the first one
  (\<open>main.go\<close>, with \<open>goto start\<close> and the 412 reply) and the revised one (with
  \<open>continue\<close> and the \<open>/healthz\<close> check).  Both are modelled; the names of the first carry
  the suffix \<open>_v1\<close>, those of the revised one \<open>_v2\<close>.

  Go's standard library is not part of the repository.  \<open>sha256.Sum256\<close>, the string
  escaping of \<open>encoding/json\<close>, \<open>sort.Slice\<close> and \<open>time.ParseDuration\<close> are fields of the
  record \<open>stdlib\<close> below: a theorem holds for each choice of them, and says so when it
  needs a part of their contract (that \<open>sort.Slice\<close> sorts, or permutes).
\<close>

subsection \<open>Errors and durations\<close>

text \<open>A Go \<open>error\<close>: a message, or \<open>fmt.Errorf("prefix: %w", err)\<close> around another error.\<close>

datatype error = Error string | Wrapped string error

text \<open>\<open>time.Duration\<close> is an \<open>int64\<close> count of nanoseconds.\<close>

type_synonym Duration = int

definition Millisecond :: Duration where
  "Millisecond = 1000000"

definition Hour :: Duration where
  "Hour = 3600000000000"

definition int64 :: "int \<Rightarrow> int" where
  \<comment> \<open>two's-complement wrap-around of 64-bit arithmetic\<close>
  "int64 x = (x + 2 ^ 63) mod 2 ^ 64 - 2 ^ 63"

definition quot :: "int \<Rightarrow> int \<Rightarrow> int" where
  \<comment> \<open>Go's integer division truncates towards zero\<close>
  "quot a b = sgn a * sgn b * (\<bar>a\<bar> div \<bar>b\<bar>)"

definition Milliseconds :: "Duration \<Rightarrow> int" where
  \<comment> \<open>\<open>func (d Duration) Milliseconds() int64 { return int64(d) / 1e6 }\<close>\<close>
  "Milliseconds d = quot d 1000000"

subsection \<open>strconv.Atoi\<close>

text \<open>
  \<open>newAccessUser\<close> reads the credential numbers with \<open>strconv.Atoi\<close> and drops its
  error, so the value returned beside an error matters: 0 on a syntax error, the
  nearest \<open>int64\<close> on a range error.  The model follows the library on a platform where
  \<open>int\<close> has 64 bits: a fast path for 1 to 18 bytes, \<open>ParseInt(s, 10, 0)\<close> otherwise.
\<close>

datatype numError = ErrSyntax | ErrRange

definition maxUint64 :: int where
  "maxUint64 = 2 ^ 64 - 1"

definition byte_sub0 :: "char \<Rightarrow> int" where
  \<comment> \<open>\<open>ch -= '0'\<close> on a byte: subtraction modulo 256\<close>
  "byte_sub0 ch = (of_char ch - 48) mod 256"

fun Atoi_fast :: "int \<Rightarrow> string \<Rightarrow> int option" where
  \<comment> \<open>the digit loop of the fast path; \<open>None\<close> is its syntax error\<close>
  "Atoi_fast n [] = Some n"
| "Atoi_fast n (ch # s) =
     (if byte_sub0 ch > 9 then None
      else Atoi_fast (n * 10 + byte_sub0 ch) s)"

fun ParseUint_loop :: "int \<Rightarrow> string \<Rightarrow> int \<times> numError option" where
  \<comment> \<open>the loop of \<open>ParseUint(s, 10, 64)\<close>: in base 10 only the bytes \<open>'0'\<close> to \<open>'9'\<close>
      are digits, and an overflow returns before the rest of the string is read\<close>
  "ParseUint_loop n [] = (n, None)"
| "ParseUint_loop n (c # s) =
     (if \<not> (48 \<le> (of_char c :: int) \<and> (of_char c :: int) \<le> 57) then (0, Some ErrSyntax)
      else if n \<ge> maxUint64 div 10 + 1 then (maxUint64, Some ErrRange)
      else if n * 10 + (of_char c - 48) > maxUint64 then (maxUint64, Some ErrRange)
      else ParseUint_loop (n * 10 + (of_char c - 48)) s)"

definition ParseUint :: "string \<Rightarrow> int \<times> numError option" where
  "ParseUint s = (if s = [] then (0, Some ErrSyntax) else ParseUint_loop 0 s)"

definition ParseInt :: "string \<Rightarrow> int \<times> numError option" where
  "ParseInt s =
     (case s of
        [] \<Rightarrow> (0, Some ErrSyntax)
      | c # r \<Rightarrow>
          (let neg = (c = CHR ''-'');
               s1 = (if c = CHR ''+'' \<or> c = CHR ''-'' then r else s);
               (un, err) = ParseUint s1
           in if err = Some ErrSyntax then (0, Some ErrSyntax)
              else if \<not> neg \<and> un \<ge> 2 ^ 63 then (2 ^ 63 - 1, Some ErrRange)
              else if neg \<and> un > 2 ^ 63 then (- (2 ^ 63), Some ErrRange)
              else (if neg then - un else un, None)))"

definition Atoi :: "string \<Rightarrow> int \<times> numError option" where
  "Atoi s =
     (if 0 < length s \<and> length s < 19 then
        (case s of
           [] \<Rightarrow> (0, Some ErrSyntax)
         | c # r \<Rightarrow>
             (let s1 = (if c = CHR ''-'' \<or> c = CHR ''+'' then r else s)
              in if s1 = [] then (0, Some ErrSyntax)
                 else (case Atoi_fast 0 s1 of
                         None \<Rightarrow> (0, Some ErrSyntax)
                       | Some n \<Rightarrow> (if c = CHR ''-'' then - n else n, None))))
      else ParseInt s)"

subsection \<open>keycloak.go: directory records and access users\<close>

text \<open>
  Of \<open>gocloak.User\<close> the code reads two fields, both pointers: \<open>ID *string\<close> and
  \<open>Attributes *map[string][]string\<close>; \<open>None\<close> is the nil pointer.
\<close>

record kcUser =
  ID :: "string option"
  Attributes :: "(string \<rightharpoonup> string list) option"

record AccessUser =
  UserID :: string
  FobID :: int
  QRID :: int
  TTL :: int

definition firstElOrZeroVal :: "string list \<Rightarrow> string" where
  \<comment> \<open>instantiated at \<open>T = string\<close>, whose zero value is the empty string\<close>
  "firstElOrZeroVal sl = (if length sl = 0 then [] else sl ! 0)"

definition index_attr :: "(string \<rightharpoonup> string list) \<Rightarrow> string \<Rightarrow> string list" where
  \<comment> \<open>\<open>attr[key]\<close>: a missing key gives the zero value, the nil slice\<close>
  "index_attr attr key = (case attr key of None \<Rightarrow> [] | Some v \<Rightarrow> v)"

definition newAccessUser :: "kcUser \<Rightarrow> AccessUser option" where
  "newAccessUser kcuser =
     (case ID kcuser of
        None \<Rightarrow> None
      | Some uid \<Rightarrow>
          (case Attributes kcuser of
             None \<Rightarrow> None
           | Some attr \<Rightarrow>
               (let fobID = fst (Atoi (firstElOrZeroVal (index_attr attr ''keyfobID'')));
                    qrID = fst (Atoi (firstElOrZeroVal (index_attr attr ''qrID'')))
                in if fobID = 0 \<and> qrID = 0 then None
                   else if firstElOrZeroVal (index_attr attr ''buildingAccessApprover'') = [] then None
                   else Some \<lparr> UserID = uid, FobID = fobID, QRID = qrID,
                               TTL = Milliseconds (int64 (Hour * 24)) \<rparr>)))"

text \<open>
  What one call of \<open>ListUsers\<close> meets outside the process: the outcome of
  \<open>ensureToken\<close>, the reply of the group-members endpoint to a request with the given
  \<open>First\<close> and \<open>Max\<close>, and the number of requests that complete before the context
  that \<open>Fill\<close> creates (\<open>context.WithTimeout(..., time.Minute)\<close>) expires; the request
  after that fails.  A reply is \<open>Inl\<close> when building the query or the call returns an
  error, and \<open>Inr users\<close> otherwise, with the users decoded into \<open>users\<close>: none when the
  page is empty, and none either when nothing was decoded and \<open>users\<close> stayed nil.
\<close>

record directory =
  ensureToken :: "error + string"
  members :: "nat \<Rightarrow> nat \<Rightarrow> error + kcUser list"
  requests :: nat

fun append_users :: "kcUser list \<Rightarrow> AccessUser list \<Rightarrow> AccessUser list" where
  \<comment> \<open>the inner \<open>for _, user := range users\<close> of \<open>ListUsers\<close>\<close>
  "append_users [] all = all"
| "append_users (user # users) all =
     (case newAccessUser user of
        None \<Rightarrow> append_users users all
      | Some u \<Rightarrow> append_users users (all @ [u]))"

fun ListUsers_pages :: "directory \<Rightarrow> nat \<Rightarrow> nat \<Rightarrow> AccessUser list \<Rightarrow> error + AccessUser list" where
  \<comment> \<open>the outer \<open>for\<close> of \<open>ListUsers\<close>, with \<open>max = 50\<close>\<close>
  "ListUsers_pages k 0 first all = Inl (Error ''context deadline exceeded'')"
| "ListUsers_pages k (Suc n) first all =
     (case members k first 50 of
        Inl err \<Rightarrow> Inl err
      | Inr users \<Rightarrow>
          if length users = 0 then Inr all
          else ListUsers_pages k n (first + length users) (append_users users all))"

definition ListUsers :: "directory \<Rightarrow> error + AccessUser list" where
  \<comment> \<open>\<open>Inr all\<close> is the non-nil slice \<open>all\<close> (it starts as \<open>[]*AccessUser{}\<close>)\<close>
  "ListUsers k =
     (case ensureToken k of
        Inl err \<Rightarrow> Inl (Wrapped ''getting token: '' err)
      | Inr token \<Rightarrow> ListUsers_pages k (requests k) 0 [])"

text \<open>
  The records that the loop of \<open>ListUsers\<close> reads from the directory, in the order it
  reads them: the pages it is sent, up to the first empty page, error or deadline.
  \<open>ListUsers\<close> does not compute this list; it is what its result is stated against.
\<close>

fun fetched_pages :: "directory \<Rightarrow> nat \<Rightarrow> nat \<Rightarrow> kcUser list" where
  "fetched_pages k 0 first = []"
| "fetched_pages k (Suc n) first =
     (case members k first 50 of
        Inl err \<Rightarrow> []
      | Inr users \<Rightarrow>
          if length users = 0 then []
          else users @ fetched_pages k n (first + length users))"

definition fetched :: "directory \<Rightarrow> kcUser list" where
  "fetched k = fetched_pages k (requests k) 0"

subsection \<open>The standard library, as far as the cache uses it\<close>

text \<open>
  \<^item> \<open>Sum256\<close>: \<open>sha256.Sum256\<close>, from bytes to a \<open>[32]byte\<close>, here the 256-bit digest
    whose most significant byte is byte 0 of the array;
  \<^item> \<open>appendString\<close>: the JSON text of a Go string as \<open>encoding/json\<close> writes it
    (quotes, escapes);
  \<^item> \<open>sort_Slice\<close>: \<open>sort.Slice\<close>, given the \<open>less\<close> function on elements (the source's
    closure compares \<open>users[i]\<close> with \<open>users[j]\<close>); the library does not promise a
    stable sort;
  \<^item> \<open>ParseDuration\<close>: \<open>time.ParseDuration\<close>.
\<close>

record stdlib =
  Sum256 :: "string \<Rightarrow> 256 word"
  appendString :: "string \<Rightarrow> string"
  sort_Slice :: "(AccessUser \<Rightarrow> AccessUser \<Rightarrow> bool) \<Rightarrow> AccessUser list \<Rightarrow> AccessUser list"
  ParseDuration :: "string \<Rightarrow> error + Duration"

text \<open>
  For slices of at most 12 elements \<open>sort.Slice\<close> is the library's insertion sort:
  \<open>for i := a + 1; i < b; i++ { for j := i; j > a && less(j, j-1); j-- { swap(j, j-1) } }\<close>.
  \<open>sink\<close> moves the new element left through the part already sorted, which is kept
  in reverse (its last element first).
\<close>

fun sink :: "('a \<Rightarrow> 'a \<Rightarrow> bool) \<Rightarrow> 'a \<Rightarrow> 'a list \<Rightarrow> 'a list" where
  "sink lt x [] = [x]"
| "sink lt x (y # ys) = (if lt x y then y # sink lt x ys else x # y # ys)"

definition insertionSort :: "('a \<Rightarrow> 'a \<Rightarrow> bool) \<Rightarrow> 'a list \<Rightarrow> 'a list" where
  "insertionSort lt xs = rev (fold (sink lt) xs [])"

text \<open>
  The JSON text of a string that needs no escape (letters, digits, \<open>-\<close>, as in the
  UUIDs Keycloak gives its users) is the string between double quotes.
\<close>

definition quote_plain :: "string \<Rightarrow> string" where
  "quote_plain s = [CHR 0x22] @ s @ [CHR 0x22]"

subsection \<open>cache.go: the fingerprint\<close>

function digits10 :: "int \<Rightarrow> string" where
  "digits10 n =
     (if n < 10 then [''0123456789'' ! nat n]
      else digits10 (n div 10) @ [''0123456789'' ! nat (n mod 10)])"
  by pat_completeness auto
termination
  by (relation "measure nat") auto

definition Itoa :: "int \<Rightarrow> string" where
  \<comment> \<open>an integer in decimal, as \<open>encoding/json\<close> writes an \<open>int\<close> or \<open>int64\<close> field\<close>
  "Itoa i = (if i < 0 then CHR ''-'' # digits10 (- i) else digits10 i)"

definition marshal_user :: "stdlib \<Rightarrow> AccessUser \<Rightarrow> string" where
  \<comment> \<open>the struct tags: \<open>userID\<close>, \<open>fobID,omitempty\<close>, \<open>qrID,omitempty\<close>, \<open>ttl\<close>\<close>
  \<open>marshal_user L u =
     ''{"userID":'' @ appendString L (UserID u)
       @ (if FobID u = 0 then [] else '',"fobID":'' @ Itoa (FobID u))
       @ (if QRID u = 0 then [] else '',"qrID":'' @ Itoa (QRID u))
       @ '',"ttl":'' @ Itoa (TTL u) @ ''}''\<close>

fun join_comma :: "string list \<Rightarrow> string" where
  "join_comma [] = []"
| "join_comma [x] = x"
| "join_comma (x # y # ys) = x @ '','' @ join_comma (y # ys)"

definition json_Marshal :: "stdlib \<Rightarrow> AccessUser list option \<Rightarrow> string" where
  \<comment> \<open>\<open>json.Marshal(&users)\<close>: \<open>null\<close> for the nil slice, an array otherwise\<close>
  "json_Marshal L users =
     (case users of
        None \<Rightarrow> ''null''
      | Some us \<Rightarrow> ''['' @ join_comma (map (marshal_user L) us) @ '']'')"

definition hex_byte :: "8 word \<Rightarrow> string" where
  \<comment> \<open>\<open>dst[j] = hextable[v>>4]; dst[j+1] = hextable[v&0x0f]\<close>\<close>
  "hex_byte v = [''0123456789abcdef'' ! unat (drop_bit 4 v),
                 ''0123456789abcdef'' ! unat (v AND 15)]"

definition EncodeToString :: "8 word list \<Rightarrow> string" where
  "EncodeToString src = concat (map hex_byte src)"

definition array32 :: "256 word \<Rightarrow> 8 word list" where
  \<comment> \<open>\<open>hash[:]\<close>: the 32 bytes of the digest\<close>
  "array32 h = map (\<lambda>i. ucast (drop_bit (8 * (31 - i)) h)) [0..<32]"

definition calculateUsersHash :: "stdlib \<Rightarrow> AccessUser list option \<Rightarrow> string" where
  "calculateUsersHash L users = EncodeToString (array32 (Sum256 L (json_Marshal L users)))"

subsection \<open>cache.go: the cache\<close>

text \<open>
  A channel is known by its identity.  \<open>watchers\<close> maps each registered channel to the
  content of its buffer of capacity 1: \<open>True\<close> when a signal is pending.  \<open>state = None\<close>
  is the nil slice.  The field \<open>keycloak\<close> is the client; what it answers is the
  \<open>directory\<close> given to each \<open>Fill\<close>.  Every function below is one critical section
  under \<open>c.lock\<close>.
\<close>

type_synonym chan = nat

record cache =
  state :: "AccessUser list option"
  hash :: string
  watchers :: "chan \<rightharpoonup> bool"

definition newCache :: cache where
  "newCache = \<lparr> state = None, hash = [], watchers = Map.empty \<rparr>"

definition send_all :: "(chan \<rightharpoonup> bool) \<Rightarrow> (chan \<rightharpoonup> bool)" where
  \<comment> \<open>\<open>for ch := range c.watchers { select { case ch <- struct{}{}: default: } }\<close>: the
      send fills an empty buffer and is dropped on a full one\<close>
  "send_all w = (\<lambda>ch. case w ch of None \<Rightarrow> None | Some pending \<Rightarrow> Some True)"

definition Fill :: "stdlib \<Rightarrow> directory \<Rightarrow> cache \<Rightarrow> error option \<times> cache" where
  "Fill L k c =
     (case ListUsers k of
        Inl err \<Rightarrow> (Some err, c)
      | Inr users \<Rightarrow>
          (let users' = sort_Slice L (\<lambda>i j. FobID i < FobID j) users;
               h = calculateUsersHash L (Some users')
           in if hash c = h then (None, c)
              else (None, c\<lparr> state := Some users', hash := h,
                              watchers := send_all (watchers c) \<rparr>)))"

definition Load :: "cache \<Rightarrow> AccessUser list option \<times> string" where
  "Load c = (state c, hash c)"

text \<open>
  \<open>Wait\<close> has two critical sections: it registers a channel it has just made, blocks in
  \<open>select\<close> until a signal or the timer, then deletes the channel.  While it blocks the
  other goroutines act on the cache; \<open>others\<close> is what they do in that time, which
  \<open>period\<close> bounds.  Both branches of the \<open>select\<close> are empty and lead to the same
  \<open>delete\<close>, so which of them ends the wait does not show in the cache.
\<close>

datatype action = DoFill directory | DoLoad | WaitEnter chan | WaitLeave chan

definition Wait_enter :: "chan \<Rightarrow> cache \<Rightarrow> cache" where
  \<comment> \<open>\<open>c.watchers[ch] = struct{}{}\<close>, for \<open>ch := make(chan struct{}, 1)\<close>\<close>
  "Wait_enter ch c = c\<lparr> watchers := (watchers c)(ch \<mapsto> False) \<rparr>"

definition Wait_leave :: "chan \<Rightarrow> cache \<Rightarrow> cache" where
  \<comment> \<open>\<open>delete(c.watchers, ch)\<close>\<close>
  "Wait_leave ch c = c\<lparr> watchers := (watchers c)(ch := None) \<rparr>"

fun exec :: "stdlib \<Rightarrow> action \<Rightarrow> cache \<Rightarrow> cache" where
  "exec L (DoFill k) c = snd (Fill L k c)"
| "exec L DoLoad c = c"
| "exec L (WaitEnter ch) c = Wait_enter ch c"
| "exec L (WaitLeave ch) c = Wait_leave ch c"

definition run :: "stdlib \<Rightarrow> action list \<Rightarrow> cache \<Rightarrow> cache" where
  "run L acts c = fold (exec L) acts c"

definition Wait :: "stdlib \<Rightarrow> chan \<Rightarrow> action list \<Rightarrow> cache \<Rightarrow> cache" where
  "Wait L ch others c = Wait_leave ch (run L others (Wait_enter ch c))"

fun uses_chan :: "chan \<Rightarrow> action \<Rightarrow> bool" where
  "uses_chan ch (WaitEnter ch') = (ch = ch')"
| "uses_chan ch (WaitLeave ch') = (ch = ch')"
| "uses_chan ch _ = False"

fun succeeds :: "action \<Rightarrow> bool" where
  \<comment> \<open>a \<open>Fill\<close> that returns a nil error\<close>
  "succeeds (DoFill k) = (case ListUsers k of Inl err \<Rightarrow> False | Inr users \<Rightarrow> True)"
| "succeeds _ = False"

definition paired :: "cache \<Rightarrow> bool" where
  \<comment> \<open>the fingerprint is empty exactly when the slice is nil, and has 64 characters otherwise\<close>
  "paired c = ((hash c = []) = (state c = None) \<and> (hash c = [] \<or> length (hash c) = 64))"

definition fingerprinted :: "stdlib \<Rightarrow> cache \<Rightarrow> bool" where
  \<comment> \<open>the stored fingerprint is the fingerprint of the stored slice\<close>
  "fingerprinted L c =
     (hash c = (case state c of None \<Rightarrow> [] | Some us \<Rightarrow> calculateUsersHash L (Some us)))"

definition apart :: "chan \<Rightarrow> cache \<Rightarrow> cache \<Rightarrow> bool" where
  \<comment> \<open>two caches that differ at most in the registration of \<open>ch\<close>\<close>
  "apart ch c1 c2 = (state c1 = state c2 \<and> hash c1 = hash c2 \<and>
     (watchers c1)(ch := None) = watchers c2)"

subsection \<open>main: the Keycloak loop\<close>

text \<open>
  The loop runs for ever; its model is driven by the outcomes of the successive calls
  of \<open>cache.Fill\<close> (\<open>None\<close> is the nil error) and gives what the goroutine does up to
  the first call whose outcome the list no longer holds.  \<open>AwaitTrigger\<close> is the receive
  of \<open>for range refresh\<close>, which blocks until a trigger is pending on the channel.
\<close>

datatype event = AwaitTrigger | CallFill | Sleep Duration

definition nextRetry :: "Duration \<Rightarrow> Duration \<Rightarrow> Duration" where
  \<comment> \<open>\<open>if lastRetry == 0 { lastRetry = time.Millisecond * 250 }\<close>,
      \<open>lastRetry += lastRetry / 2\<close>, \<open>if lastRetry > *resync { lastRetry = *resync }\<close>\<close>
  "nextRetry resync lastRetry =
     (let l1 = (if lastRetry = 0 then int64 (Millisecond * 250) else lastRetry);
          l2 = int64 (l1 + quot l1 2)
      in if l2 > resync then resync else l2)"

fun start_v1 :: "Duration \<Rightarrow> Duration \<Rightarrow> error option list \<Rightarrow> event list" where
  \<comment> \<open>first version, from the label \<open>start\<close>: every pass ends in \<open>goto start\<close>\<close>
  "start_v1 resync lastRetry [] = []"
| "start_v1 resync lastRetry (err # errs) =
     (let l = nextRetry resync (case err of None \<Rightarrow> 0 | Some e \<Rightarrow> lastRetry)
      in CallFill # Sleep l # start_v1 resync l errs)"

definition keycloakLoop_v1 :: "Duration \<Rightarrow> error option list \<Rightarrow> event list" where
  "keycloakLoop_v1 resync errs = AwaitTrigger # start_v1 resync 0 errs"

fun loop_v2 :: "Duration \<Rightarrow> Duration \<Rightarrow> error option list \<Rightarrow> event list" where
  \<comment> \<open>revised version: \<open>continue\<close> on success, the next pass of \<open>for range refresh\<close>
      after the sleep\<close>
  "loop_v2 resync lastRetry [] = [AwaitTrigger]"
| "loop_v2 resync lastRetry (err # errs) =
     AwaitTrigger # CallFill #
       (case err of
          None \<Rightarrow> loop_v2 resync 0 errs
        | Some e \<Rightarrow>
            Sleep (nextRetry resync lastRetry) # loop_v2 resync (nextRetry resync lastRetry) errs)"

definition keycloakLoop_v2 :: "Duration \<Rightarrow> error option list \<Rightarrow> event list" where
  "keycloakLoop_v2 resync errs = loop_v2 resync 0 errs"

fun sleeps :: "event list \<Rightarrow> Duration list" where
  "sleeps [] = []"
| "sleeps (Sleep d # evs) = d # sleeps evs"
| "sleeps (ev # evs) = sleeps evs"

text \<open>
  The backoff as the specification words it, with 375 ms for its first delay, to
  compare the loop with: the delay after the first failure, and each later one 1.5 times
  the one before, rounded down to a nanosecond and clamped at the resync interval; a
  success starts it again.  \<open>spec_sleeps n\<close> is for a loop that has failed \<open>n\<close> times in a
  row.
\<close>

fun spec_delay :: "Duration \<Rightarrow> nat \<Rightarrow> Duration" where
  "spec_delay resync 0 = min resync (375 * Millisecond)"
| "spec_delay resync (Suc n) = min resync (spec_delay resync n * 3 div 2)"

fun spec_sleeps :: "Duration \<Rightarrow> nat \<Rightarrow> error option list \<Rightarrow> Duration list" where
  "spec_sleeps resync n [] = []"
| "spec_sleeps resync n (None # errs) = spec_sleeps resync 0 errs"
| "spec_sleeps resync n (Some e # errs) =
     spec_delay resync n # spec_sleeps resync (Suc n) errs"

fun failed :: "error option \<Rightarrow> bool" where
  \<comment> \<open>\<open>err != nil\<close>\<close>
  "failed None = False"
| "failed (Some e) = True"

subsection \<open>main: the handlers\<close>

text \<open>
  Of a request the handlers read the query parameter \<open>wait\<close> and the header
  \<open>If-None-Match\<close>, both empty when absent.  A response is the status, the headers the
  handler sets and the body it writes.
\<close>

record request =
  wait :: string
  if_none_match :: string

record response =
  status :: nat
  header :: "(string \<times> string) list"
  body :: string

fun Error_string :: "error \<Rightarrow> string" where
  \<comment> \<open>\<open>err.Error()\<close>\<close>
  "Error_string (Error msg) = msg"
| "Error_string (Wrapped prefix err) = prefix @ Error_string err"

definition http_Error :: "string \<Rightarrow> nat \<Rightarrow> response" where
  \<comment> \<open>\<open>net/http\<close>: plain text, the code, the message and a newline\<close>
  "http_Error msg code =
     \<lparr> status = code,
       header = [(''Content-Type'', ''text/plain; charset=utf-8''),
                 (''X-Content-Type-Options'', ''nosniff'')],
       body = msg @ [CHR 0x0A] \<rparr>"

definition WriteHeader :: "nat \<Rightarrow> response" where
  \<comment> \<open>\<open>w.WriteHeader(code)\<close> and nothing else\<close>
  "WriteHeader code = \<lparr> status = code, header = [], body = [] \<rparr>"

definition Encode :: "stdlib \<Rightarrow> string \<Rightarrow> AccessUser list option \<Rightarrow> response" where
  \<comment> \<open>the two \<open>w.Header().Set\<close> and \<open>json.NewEncoder(w).Encode(&users)\<close>, which writes
      the JSON text and a newline under the status 200\<close>
  "Encode L h users =
     \<lparr> status = 200,
       header = [(''ETag'', h), (''Content-Type'', ''application/json'')],
       body = json_Marshal L users @ [CHR 0x0A] \<rparr>"

definition healthz_v1 :: "cache \<Rightarrow> response" where
  "healthz_v1 c = WriteHeader 204"

definition healthz_v2 :: "cache \<Rightarrow> response" where
  "healthz_v2 c = (if fst (Load c) = None then WriteHeader 500 else WriteHeader 204)"

definition reply_v1 :: "stdlib \<Rightarrow> request \<Rightarrow> cache \<Rightarrow> response" where
  \<comment> \<open>first version of \<open>GET /v1/fobs\<close>, from \<open>cache.Load()\<close> on\<close>
  "reply_v1 L r c =
     (let (users, h) = Load c
      in if users = None then WriteHeader 412
         else if h \<noteq> [] \<and> h = if_none_match r then WriteHeader 304
         else Encode L h users)"

definition reply_v2 :: "stdlib \<Rightarrow> request \<Rightarrow> cache \<Rightarrow> response" where
  \<comment> \<open>revised version of \<open>GET /v1/fobs\<close>, from \<open>cache.Load()\<close> on\<close>
  "reply_v2 L r c =
     (let (users, h) = Load c
      in if h \<noteq> [] \<and> h = if_none_match r then WriteHeader 304
         else Encode L h users)"

definition fobs_v1 :: "stdlib \<Rightarrow> chan \<Rightarrow> action list \<Rightarrow> request \<Rightarrow> cache \<Rightarrow> response \<times> cache" where
  \<comment> \<open>\<open>ch\<close> is the channel \<open>Wait\<close> makes, \<open>others\<close> what the other goroutines do while
      it blocks\<close>
  "fobs_v1 L ch others r c =
     (if wait r \<noteq> [] then
        (case ParseDuration L (wait r) of
           Inl err \<Rightarrow> (http_Error (Error_string err) 400, c)
         | Inr waitDuration \<Rightarrow> (reply_v1 L r (Wait L ch others c), Wait L ch others c))
      else (reply_v1 L r c, c))"

definition fobs_v2 :: "stdlib \<Rightarrow> chan \<Rightarrow> action list \<Rightarrow> request \<Rightarrow> cache \<Rightarrow> response \<times> cache" where
  "fobs_v2 L ch others r c =
     (if wait r \<noteq> [] then
        (case ParseDuration L (wait r) of
           Inl err \<Rightarrow> (http_Error (Error_string err) 400, c)
         | Inr waitDuration \<Rightarrow> (reply_v2 L r (Wait L ch others c), Wait L ch others c))
      else (reply_v2 L r c, c))"

subsection \<open>Concrete inputs\<close>

text \<open>
  A library to run the model on small inputs: the insertion sort that \<open>sort.Slice\<close> is
  on short slices, the JSON text of strings without escapes, a \<open>ParseDuration\<close> that
  knows \<open>1s\<close>, and the digest function given.
\<close>

definition golib :: "(string \<Rightarrow> 256 word) \<Rightarrow> stdlib" where
  "golib S =
     \<lparr> Sum256 = S, appendString = quote_plain, sort_Slice = insertionSort,
       ParseDuration = (\<lambda>s. if s = ''1s'' then Inr 1000000000
                             else Inl (Error ''time: invalid duration'')) \<rparr>"

definition length_digest :: "string \<Rightarrow> 256 word" where
  \<comment> \<open>stands in for a digest where the examples need one that can be computed\<close>
  "length_digest s = of_nat (length s)"

text \<open>Two members with a QR code and no fob, one record without credentials.\<close>

definition rec_a :: kcUser where
  "rec_a = \<lparr> ID = Some ''a'',
             Attributes = Some [''qrID'' \<mapsto> [''1''], ''buildingAccessApprover'' \<mapsto> [''admin'']] \<rparr>"

definition rec_b :: kcUser where
  "rec_b = \<lparr> ID = Some ''b'',
             Attributes = Some [''qrID'' \<mapsto> [''2''], ''buildingAccessApprover'' \<mapsto> [''admin'']] \<rparr>"

definition rec_none :: kcUser where
  "rec_none = \<lparr> ID = Some ''c'',
                Attributes = Some [''buildingAccessApprover'' \<mapsto> [''admin'']] \<rparr>"

definition user_a :: AccessUser where
  "user_a = \<lparr> UserID = ''a'', FobID = 0, QRID = 1, TTL = 86400000 \<rparr>"

definition user_b :: AccessUser where
  "user_b = \<lparr> UserID = ''b'', FobID = 0, QRID = 2, TTL = 86400000 \<rparr>"

definition serving :: "kcUser list \<Rightarrow> directory" where
  \<comment> \<open>a directory that answers with one page of records, then with the empty page\<close>
  "serving records =
     \<lparr> ensureToken = Inr ''token'',
       members = (\<lambda>first mx. if first = 0 then Inr records else Inr []),
       requests = 2 \<rparr>"

definition unreachable :: directory where
  \<comment> \<open>a directory whose token endpoint cannot be reached\<close>
  "unreachable =
     \<lparr> ensureToken = Inl (Error ''connection refused''),
       members = (\<lambda>first mx. Inl (Error ''connection refused'')),
       requests = 0 \<rparr>"

definition error_status :: directory where
  \<comment> \<open>a directory whose members endpoint answers every request with an error status
      (401, 429, 500): the call returns a nil error, the reply is dropped unread
      (\<open>_, err = ...Get(...)\<close>), nothing is decoded and \<open>users\<close> stays nil\<close>
  "error_status =
     \<lparr> ensureToken = Inr ''token'',
       members = (\<lambda>first mx. Inr []),
       requests = 2 \<rparr>"

section \<open>Properties\<close>

subsection \<open>Directory records\<close>

lemma Milliseconds_day: "Milliseconds (int64 (Hour * 24)) = 86400000"
  by (simp add: Milliseconds_def int64_def Hour_def quot_def)

lemma newAccessUser_Some_iff:
  "newAccessUser r = Some u \<longleftrightarrow>
     (\<exists>uid attr.
        ID r = Some uid \<and> Attributes r = Some attr \<and>
        (fst (Atoi (firstElOrZeroVal (index_attr attr ''keyfobID''))) \<noteq> 0 \<or>
         fst (Atoi (firstElOrZeroVal (index_attr attr ''qrID''))) \<noteq> 0) \<and>
        firstElOrZeroVal (index_attr attr ''buildingAccessApprover'') \<noteq> [] \<and>
        u = \<lparr> UserID = uid,
              FobID = fst (Atoi (firstElOrZeroVal (index_attr attr ''keyfobID''))),
              QRID = fst (Atoi (firstElOrZeroVal (index_attr attr ''qrID''))),
              TTL = 86400000 \<rparr>)"
  by (auto simp: newAccessUser_def Let_def Milliseconds_day split: option.splits)

lemma newAccessUser_None_iff:
  "(newAccessUser r = None) =
     (ID r = None \<or> Attributes r = None \<or>
      (\<exists>attr. Attributes r = Some attr \<and>
         (fst (Atoi (firstElOrZeroVal (index_attr attr ''keyfobID''))) = 0 \<and>
          fst (Atoi (firstElOrZeroVal (index_attr attr ''qrID''))) = 0 \<or>
          firstElOrZeroVal (index_attr attr ''buildingAccessApprover'') = [])))"
  by (auto simp: newAccessUser_def Let_def split: option.splits)

lemma append_users_eq:
  "append_users users all = all @ List.map_filter newAccessUser users"
  by (induction users arbitrary: all) (auto simp: List.map_filter_simps split: option.splits)

lemma ListUsers_pages_built:
  "ListUsers_pages k n first all = Inr res \<Longrightarrow>
     res = all @ List.map_filter newAccessUser (fetched_pages k n first)"
proof (induction n arbitrary: first all)
  case 0
  then show ?case by simp
next
  case (Suc n)
  show ?case
  proof (cases "members k first 50")
    case (Inl err)
    with Suc.prems show ?thesis by simp
  next
    case (Inr users)
    show ?thesis
    proof (cases "length users = 0")
      case True
      with Suc.prems Inr show ?thesis
        by (simp add: List.map_filter_simps)
    next
      case False
      with Suc.prems Inr
      have "ListUsers_pages k n (first + length users) (append_users users all) = Inr res"
        by simp
      from Suc.IH [OF this] Inr False show ?thesis
        by (simp add: append_users_eq List.map_filter_def)
    qed
  qed
qed

lemma ListUsers_built:
  "ListUsers k = Inr res \<Longrightarrow> res = List.map_filter newAccessUser (fetched k)"
  using ListUsers_pages_built [of k "requests k" 0 "[]" res]
  by (auto simp: ListUsers_def fetched_def split: sum.splits)

lemma fetched_pages_sent:
  "r \<in> set (fetched_pages k n first) \<Longrightarrow>
     \<exists>f users. members k f 50 = Inr users \<and> r \<in> set users"
proof (induction n arbitrary: first)
  case 0
  then show ?case by simp
next
  case (Suc n)
  show ?case
  proof (cases "members k first 50")
    case (Inl err)
    with Suc.prems show ?thesis by simp
  next
    case (Inr users)
    with Suc.prems have "r \<in> set users \<or> r \<in> set (fetched_pages k n (first + length users))"
      by (simp split: if_splits)
    with Inr Suc.IH show ?thesis by blast
  qed
qed

lemma fetched_sent:
  "r \<in> set (fetched k) \<Longrightarrow> \<exists>f users. members k f 50 = Inr users \<and> r \<in> set users"
  unfolding fetched_def by (rule fetched_pages_sent)

subsection \<open>Fingerprints\<close>

lemma length_EncodeToString: "length (EncodeToString src) = 2 * length src"
  by (induction src) (simp_all add: EncodeToString_def hex_byte_def)

lemma length_calculateUsersHash: "length (calculateUsersHash L users) = 64"
  by (simp add: calculateUsersHash_def length_EncodeToString array32_def)

lemma calculateUsersHash_nonempty: "calculateUsersHash L users \<noteq> []"
  using length_calculateUsersHash [of L users] by auto

lemma nibble_hi: "unat (drop_bit 4 (v :: 8 word)) < 16"
proof -
  have "unat (drop_bit 4 v) = unat v div 2 ^ 4"
    by (simp add: drop_bit_eq_div unat_div)
  moreover have "unat v < 2 ^ 8"
    using unsigned_less [of v] by simp
  ultimately show ?thesis by simp
qed

lemma nibble_lo: "unat ((v :: 8 word) AND 15) < 16"
proof -
  have "unat (v AND 15) \<le> unat (15 :: 8 word)"
    by (rule word_and_le1 [THEN word_le_nat_alt [THEN iffD1]])
  then show ?thesis by simp
qed

lemma hex_byte_inj:
  assumes "hex_byte v = hex_byte w"
  shows "v = w"
proof -
  have d: "distinct ''0123456789abcdef''" by simp
  have l: "length ''0123456789abcdef'' = 16" by simp
  from assms have
    "''0123456789abcdef'' ! unat (drop_bit 4 v) = ''0123456789abcdef'' ! unat (drop_bit 4 w)"
    "''0123456789abcdef'' ! unat (v AND 15) = ''0123456789abcdef'' ! unat (w AND 15)"
    by (simp_all add: hex_byte_def)
  with nibble_hi [of v] nibble_hi [of w] nibble_lo [of v] nibble_lo [of w]
  have "unat (drop_bit 4 v) = unat (drop_bit 4 w)" "unat (v AND 15) = unat (w AND 15)"
    using nth_eq_iff_index_eq [OF d] l by metis+
  then have hi: "drop_bit 4 v = drop_bit 4 w" and lo: "v AND 15 = w AND 15"
    by (simp_all add: word_unat_eq_iff)
  have m: "x AND 15 = take_bit 4 x" for x :: "8 word"
    using take_bit_eq_mask [of 4 x] by (simp add: mask_eq_exp_minus_1)
  have "v = push_bit 4 (drop_bit 4 v) + take_bit 4 v"
    by (simp add: bits_ident)
  also have "\<dots> = push_bit 4 (drop_bit 4 w) + take_bit 4 w"
    using hi lo by (simp add: m)
  also have "\<dots> = w"
    by (simp add: bits_ident)
  finally show ?thesis .
qed

lemma EncodeToString_inj:
  "length xs = length ys \<Longrightarrow> EncodeToString xs = EncodeToString ys \<Longrightarrow> xs = ys"
proof (induction xs ys rule: list_induct2)
  case Nil
  then show ?case by simp
next
  case (Cons x xs y ys)
  from Cons.prems have "hex_byte x @ EncodeToString xs = hex_byte y @ EncodeToString ys"
    by (simp add: EncodeToString_def)
  moreover have "length (hex_byte x) = length (hex_byte y)"
    by (simp add: hex_byte_def)
  ultimately have "hex_byte x = hex_byte y" "EncodeToString xs = EncodeToString ys"
    by simp_all
  with Cons.IH show ?case by (simp add: hex_byte_inj)
qed

lemma array32_inj:
  assumes "array32 h = array32 h'"
  shows "h = h'"
proof (rule bit_word_eqI)
  fix n
  assume "n < LENGTH(256)"
  then have n: "n < 256" by simp
  define i where "i = 31 - n div 8"
  from n have i: "i < 32" "8 * (31 - i) = 8 * (n div 8)"
    by (simp_all add: i_def)
  from assms have "\<forall>j < 32. (ucast (drop_bit (8 * (31 - j)) h) :: 8 word) =
      ucast (drop_bit (8 * (31 - j)) h')"
    by (simp add: array32_def)
  with i have "(ucast (drop_bit (8 * (n div 8)) h) :: 8 word) = ucast (drop_bit (8 * (n div 8)) h')"
    by metis
  then have "bit (ucast (drop_bit (8 * (n div 8)) h) :: 8 word) (n mod 8) =
      bit (ucast (drop_bit (8 * (n div 8)) h') :: 8 word) (n mod 8)"
    by simp
  then show "bit h n = bit h' n"
    by (simp add: bit_ucast_iff bit_drop_bit_eq)
qed

lemma calculateUsersHash_eq_iff:
  "(calculateUsersHash L us = calculateUsersHash L vs) =
     (Sum256 L (json_Marshal L us) = Sum256 L (json_Marshal L vs))"
proof
  assume "calculateUsersHash L us = calculateUsersHash L vs"
  then have "array32 (Sum256 L (json_Marshal L us)) = array32 (Sum256 L (json_Marshal L vs))"
    by (intro EncodeToString_inj) (simp_all add: calculateUsersHash_def array32_def)
  then show "Sum256 L (json_Marshal L us) = Sum256 L (json_Marshal L vs)"
    by (rule array32_inj)
qed (simp add: calculateUsersHash_def)

subsection \<open>Fill, step by step\<close>

lemma Fill_error: "ListUsers k = Inl err \<Longrightarrow> Fill L k c = (Some err, c)"
  by (simp add: Fill_def)

lemma Fill_unchanged:
  "ListUsers k = Inr users \<Longrightarrow>
   hash c = calculateUsersHash L (Some (sort_Slice L (\<lambda>i j. FobID i < FobID j) users)) \<Longrightarrow>
   Fill L k c = (None, c)"
  by (simp add: Fill_def)

lemma Fill_changed:
  "ListUsers k = Inr users \<Longrightarrow>
   hash c \<noteq> calculateUsersHash L (Some (sort_Slice L (\<lambda>i j. FobID i < FobID j) users)) \<Longrightarrow>
   Fill L k c =
     (None, c\<lparr> state := Some (sort_Slice L (\<lambda>i j. FobID i < FobID j) users),
               hash := calculateUsersHash L (Some (sort_Slice L (\<lambda>i j. FobID i < FobID j) users)),
               watchers := send_all (watchers c) \<rparr>)"
  by (simp add: Fill_def Let_def)

lemma dom_send_all: "dom (send_all w) = dom w"
  by (auto simp: send_all_def split: option.splits)

lemma send_all_Some: "ch \<in> dom w \<Longrightarrow> send_all w ch = Some True"
  by (auto simp: send_all_def)

lemma send_all_upd_None: "(send_all w)(ch := None) = send_all (w(ch := None))"
  by (auto simp: send_all_def fun_eq_iff)

lemma Load_exec: "\<not> succeeds a \<Longrightarrow> Load (exec L a c) = Load c"
  by (cases a) (auto simp: Load_def Fill_def Wait_enter_def Wait_leave_def split: sum.splits)

lemma Load_run: "\<not> list_ex succeeds acts \<Longrightarrow> Load (run L acts c) = Load c"
  unfolding run_def by (induction acts arbitrary: c) (simp_all add: Load_exec)

lemma run_append: "run L (xs @ ys) c = run L ys (run L xs c)"
  by (simp add: run_def)

subsection \<open>Invariants of the cache\<close>

lemma paired_newCache: "paired newCache"
  by (simp add: paired_def newCache_def)

lemma paired_Fill: "paired c \<Longrightarrow> paired (snd (Fill L k c))"
  by (auto simp: paired_def Fill_def Let_def length_calculateUsersHash calculateUsersHash_nonempty
      split: sum.splits)

lemma paired_exec: "paired c \<Longrightarrow> paired (exec L a c)"
proof (cases a)
  case (DoFill k)
  assume "paired c"
  then show ?thesis unfolding DoFill by (simp add: paired_Fill)
qed (auto simp: paired_def Wait_enter_def Wait_leave_def)

lemma paired_run: "paired c \<Longrightarrow> paired (run L acts c)"
  unfolding run_def by (induction acts arbitrary: c) (simp_all add: paired_exec)

lemma state_exec:
  "paired c \<Longrightarrow> (state (exec L a c) = None) = (state c = None \<and> \<not> succeeds a)"
  by (cases a)
     (auto simp: paired_def Fill_def Let_def Wait_enter_def Wait_leave_def
        calculateUsersHash_nonempty calculateUsersHash_nonempty [THEN not_sym] split: sum.splits)

lemma state_run:
  "paired c \<Longrightarrow> (state (run L acts c) = None) = (state c = None \<and> \<not> list_ex succeeds acts)"
  unfolding run_def
proof (induction acts arbitrary: c)
  case Nil
  then show ?case by simp
next
  case (Cons a acts)
  from Cons.prems have "paired (exec L a c)" by (rule paired_exec)
  from Cons.IH [OF this] state_exec [OF Cons.prems, of L a]
  show ?case by auto
qed

lemma never_filled: "(state (run L acts newCache) = None) = (\<not> list_ex succeeds acts)"
  using state_run [OF paired_newCache, of L acts] by (simp add: newCache_def)

lemma fingerprinted_newCache: "fingerprinted L newCache"
  by (simp add: fingerprinted_def newCache_def)

lemma fingerprinted_exec: "fingerprinted L c \<Longrightarrow> fingerprinted L (exec L a c)"
  by (cases a)
     (auto simp: fingerprinted_def Fill_def Let_def Wait_enter_def Wait_leave_def
        split: sum.splits option.splits)

lemma fingerprinted_run: "fingerprinted L c \<Longrightarrow> fingerprinted L (run L acts c)"
  unfolding run_def by (induction acts arbitrary: c) (simp_all add: fingerprinted_exec)

lemma exec_both_or_neither:
  "fingerprinted L c \<Longrightarrow> (state (exec L a c) = state c) = (hash (exec L a c) = hash c)"
  by (cases a)
     (auto simp: fingerprinted_def Fill_def Let_def Wait_enter_def Wait_leave_def
        calculateUsersHash_nonempty calculateUsersHash_nonempty [THEN not_sym]
        split: sum.splits option.splits)

lemma Fill_success_installed:
  "paired c \<Longrightarrow> fst (Fill L k c) = None \<Longrightarrow>
     state (snd (Fill L k c)) \<noteq> None \<and> length (hash (snd (Fill L k c))) = 64"
  by (auto simp: paired_def Fill_def Let_def length_calculateUsersHash
        calculateUsersHash_nonempty calculateUsersHash_nonempty [THEN not_sym]
        split: sum.splits)

lemma mset_sink: "mset (sink lt x ys) = add_mset x (mset ys)"
  by (induction ys) simp_all

lemma mset_fold_sink: "mset (fold (sink lt) xs acc) = mset xs + mset acc"
  by (induction xs arbitrary: acc) (simp_all add: mset_sink)

lemma mset_insertionSort: "mset (insertionSort lt xs) = mset xs"
  by (simp add: insertionSort_def mset_fold_sink)

lemma built_exec:
  assumes srt: "\<forall>lt xs. mset (sort_Slice L lt xs) = mset xs"
      and inv: "\<forall>us. state c = Some us \<longrightarrow>
                 (\<exists>k \<in> K. ListUsers k = Inr (List.map_filter newAccessUser (fetched k)) \<and>
                          mset us = mset (List.map_filter newAccessUser (fetched k)))"
      and act: "\<forall>k. a = DoFill k \<longrightarrow> k \<in> K"
  shows "\<forall>us. state (exec L a c) = Some us \<longrightarrow>
           (\<exists>k \<in> K. ListUsers k = Inr (List.map_filter newAccessUser (fetched k)) \<and>
                    mset us = mset (List.map_filter newAccessUser (fetched k)))"
proof (cases a)
  case (DoFill k)
  with act have k: "k \<in> K" by simp
  show ?thesis
  proof (cases "ListUsers k")
    case (Inl err)
    with inv DoFill show ?thesis by (simp add: Fill_def)
  next
    case (Inr users)
    from ListUsers_built [OF Inr]
    have users: "users = List.map_filter newAccessUser (fetched k)" .
    with srt have "mset (sort_Slice L (\<lambda>i j. FobID i < FobID j) users) =
        mset (List.map_filter newAccessUser (fetched k))"
      by simp
    with k Inr users
    have "\<exists>k \<in> K. ListUsers k = Inr (List.map_filter newAccessUser (fetched k)) \<and>
        mset (sort_Slice L (\<lambda>i j. FobID i < FobID j) users) =
        mset (List.map_filter newAccessUser (fetched k))"
      by blast
    with inv DoFill Inr show ?thesis by (auto simp: Fill_def Let_def)
  qed
qed (use inv in \<open>simp_all add: Wait_enter_def Wait_leave_def\<close>)

lemma built_run:
  assumes srt: "\<forall>lt xs. mset (sort_Slice L lt xs) = mset xs"
  shows "\<forall>us. state c = Some us \<longrightarrow>
           (\<exists>k \<in> K. ListUsers k = Inr (List.map_filter newAccessUser (fetched k)) \<and>
                    mset us = mset (List.map_filter newAccessUser (fetched k)))
    \<Longrightarrow> \<forall>k. DoFill k \<in> set acts \<longrightarrow> k \<in> K
    \<Longrightarrow> \<forall>us. state (run L acts c) = Some us \<longrightarrow>
           (\<exists>k \<in> K. ListUsers k = Inr (List.map_filter newAccessUser (fetched k)) \<and>
                    mset us = mset (List.map_filter newAccessUser (fetched k)))"
  unfolding run_def
proof (induction acts arbitrary: c)
  case Nil
  then show ?case by simp
next
  case (Cons a acts)
  from Cons.prems(2) have "\<forall>k. a = DoFill k \<longrightarrow> k \<in> K" by simp
  from built_exec [OF srt Cons.prems(1) this]
  have "\<forall>us. state (exec L a c) = Some us \<longrightarrow>
           (\<exists>k \<in> K. ListUsers k = Inr (List.map_filter newAccessUser (fetched k)) \<and>
                    mset us = mset (List.map_filter newAccessUser (fetched k)))" .
  moreover from Cons.prems(2) have "\<forall>k. DoFill k \<in> set acts \<longrightarrow> k \<in> K" by simp
  ultimately show ?case using Cons.IH by simp
qed

subsection \<open>A waiter and the others\<close>

lemma apart_exec:
  "apart ch c1 c2 \<Longrightarrow> \<not> uses_chan ch a \<Longrightarrow> apart ch (exec L a c1) (exec L a c2)"
proof (cases a)
  case (DoFill k)
  assume "apart ch c1 c2"
  then show ?thesis
    unfolding DoFill
    by (auto simp: apart_def Fill_def Let_def send_all_upd_None split: sum.splits)
next
  case DoLoad
  assume "apart ch c1 c2"
  then show ?thesis unfolding DoLoad by simp
next
  case (WaitEnter ch')
  assume "apart ch c1 c2" "\<not> uses_chan ch a"
  then show ?thesis
    unfolding WaitEnter by (auto simp: apart_def Wait_enter_def fun_upd_twist)
next
  case (WaitLeave ch')
  assume "apart ch c1 c2" "\<not> uses_chan ch a"
  then show ?thesis
    unfolding WaitLeave by (auto simp: apart_def Wait_leave_def fun_upd_twist)
qed

lemma apart_run:
  "apart ch c1 c2 \<Longrightarrow> \<not> list_ex (uses_chan ch) others \<Longrightarrow>
   apart ch (run L others c1) (run L others c2)"
  unfolding run_def
  by (induction others arbitrary: c1 c2) (simp_all add: apart_exec)

lemma apart_enter: "ch \<notin> dom (watchers c) \<Longrightarrow> apart ch (Wait_enter ch c) c"
  by (auto simp: apart_def Wait_enter_def)

lemma apart_leave: "apart ch c1 c2 \<Longrightarrow> Wait_leave ch c1 = c2"
  by (cases c1, cases c2) (simp add: apart_def Wait_leave_def)

lemma Wait_frame:
  "ch \<notin> dom (watchers c) \<Longrightarrow> \<not> list_ex (uses_chan ch) others \<Longrightarrow>
   Wait L ch others c = run L others c"
  unfolding Wait_def by (rule apart_leave, rule apart_run, rule apart_enter)

lemma Wait_removes: "ch \<notin> dom (watchers (Wait L ch others c))"
  by (simp add: Wait_def Wait_leave_def)

lemma Wait_cycles:
  "\<forall>ch \<in> set chs. ch \<notin> dom (watchers c) \<Longrightarrow> fold (\<lambda>ch. Wait L ch []) chs c = c"
proof (induction chs)
  case Nil
  then show ?case by simp
next
  case (Cons ch chs)
  then have "Wait L ch [] c = c"
    using Wait_frame [of ch c "[]" L] by (simp add: run_def)
  with Cons show ?case by simp
qed

subsection \<open>The concrete inputs, evaluated\<close>

lemma newAccessUser_rec_a: "newAccessUser rec_a = Some user_a"
  by (simp add: newAccessUser_Some_iff rec_a_def user_a_def Atoi_def byte_sub0_def
      firstElOrZeroVal_def index_attr_def ParseInt_def)

lemma newAccessUser_rec_b: "newAccessUser rec_b = Some user_b"
  by (simp add: newAccessUser_Some_iff rec_b_def user_b_def Atoi_def byte_sub0_def
      firstElOrZeroVal_def index_attr_def ParseInt_def)

lemma newAccessUser_rec_none: "newAccessUser rec_none = None"
  by (simp add: newAccessUser_def rec_none_def Atoi_def
      firstElOrZeroVal_def index_attr_def ParseInt_def)

lemma ListUsers_serving:
  "records \<noteq> [] \<Longrightarrow> ListUsers (serving records) = Inr (List.map_filter newAccessUser records)"
  by (simp add: ListUsers_def serving_def numeral_2_eq_2 append_users_eq)

lemma ListUsers_serving_Nil: "ListUsers (serving []) = Inr []"
  by (simp add: ListUsers_def serving_def numeral_2_eq_2)

lemma ListUsers_unreachable:
  "ListUsers unreachable = Inl (Wrapped ''getting token: '' (Error ''connection refused''))"
  by (simp add: ListUsers_def unreachable_def)

lemma ListUsers_ab: "ListUsers (serving [rec_a, rec_none, rec_b]) = Inr [user_a, user_b]"
  by (simp add: ListUsers_serving List.map_filter_simps newAccessUser_rec_a newAccessUser_rec_b
      newAccessUser_rec_none)

lemma ListUsers_a_b: "ListUsers (serving [rec_a, rec_b]) = Inr [user_a, user_b]"
  by (simp add: ListUsers_serving List.map_filter_simps newAccessUser_rec_a newAccessUser_rec_b)

lemma ListUsers_b_a: "ListUsers (serving [rec_b, rec_a]) = Inr [user_b, user_a]"
  by (simp add: ListUsers_serving List.map_filter_simps newAccessUser_rec_a newAccessUser_rec_b)

lemma sort_ab: "sort_Slice (golib S) (\<lambda>i j. FobID i < FobID j) [user_a, user_b] = [user_a, user_b]"
  by (simp add: golib_def insertionSort_def user_a_def user_b_def)

lemma sort_ba: "sort_Slice (golib S) (\<lambda>i j. FobID i < FobID j) [user_b, user_a] = [user_b, user_a]"
  by (simp add: golib_def insertionSort_def user_a_def user_b_def)

lemma json_ab: \<open>json_Marshal (golib S) (Some [user_a, user_b]) =
   ''[{"userID":"a","qrID":1,"ttl":86400000},{"userID":"b","qrID":2,"ttl":86400000}]''\<close>
  by (simp add: json_Marshal_def marshal_user_def golib_def quote_plain_def user_a_def user_b_def Itoa_def)

lemma json_ba: \<open>json_Marshal (golib S) (Some [user_b, user_a]) =
   ''[{"userID":"b","qrID":2,"ttl":86400000},{"userID":"a","qrID":1,"ttl":86400000}]''\<close>
  by (simp add: json_Marshal_def marshal_user_def golib_def quote_plain_def user_a_def user_b_def Itoa_def)

lemma Sum256_golib: "Sum256 (golib S) = S"
  by (simp add: golib_def)

lemma users_ab_ne_ba: "[user_a, user_b] \<noteq> [user_b, user_a]"
  by (simp add: user_a_def user_b_def)

lemma hash_ab: "calculateUsersHash (golib length_digest) (Some [user_a, user_b]) = ''000000000000000000000000000000000000000000000000000000000000004f''"
  by (simp add: calculateUsersHash_def json_ab) (simp add: golib_def length_digest_def array32_def EncodeToString_def hex_byte_def upt_conv_Cons)

lemma Fill_first:
  "snd (Fill (golib length_digest) (serving [rec_a, rec_none, rec_b]) (Wait_enter 1 newCache)) =
     \<lparr> state = Some [user_a, user_b], hash = ''000000000000000000000000000000000000000000000000000000000000004f'',
       watchers = [1 \<mapsto> True] \<rparr>"
  by (simp add: Fill_def ListUsers_ab sort_ab hash_ab Wait_enter_def newCache_def send_all_def fun_eq_iff)

lemma run_fill_ab:
  "run (golib length_digest) [DoFill (serving [rec_a, rec_none, rec_b])] newCache =
     \<lparr> state = Some [user_a, user_b],
       hash = ''000000000000000000000000000000000000000000000000000000000000004f'',
       watchers = Map.empty \<rparr>"
  by (simp add: run_def Fill_def ListUsers_ab sort_ab hash_ab newCache_def send_all_def)

lemma run_fill_empty:
  "run (golib length_digest) [DoFill (serving [])] newCache =
     \<lparr> state = Some [],
       hash = ''0000000000000000000000000000000000000000000000000000000000000002'',
       watchers = Map.empty \<rparr>"
  by (simp add: run_def Fill_def ListUsers_serving_Nil newCache_def send_all_def
      calculateUsersHash_def json_Marshal_def golib_def insertionSort_def length_digest_def
      array32_def EncodeToString_def hex_byte_def upt_conv_Cons)

subsection \<open>Claims about the translation of records\<close>

text \<open>
  Claim C10.  Every access user built from a directory record has a time to live of
  exactly 86,400,000 milliseconds (24 hours), whatever the attributes of the record.
\<close>

theorem newAccessUser_TTL: "newAccessUser r = Some u \<Longrightarrow> TTL u = 86400000"
  by (auto simp: newAccessUser_Some_iff)

theorem newAccessUser_TTL_witness: "newAccessUser rec_a = Some user_a \<and> TTL user_a = 86400000"
  using newAccessUser_TTL [of rec_a user_a] by (simp add: newAccessUser_rec_a)

text \<open>
  Claim C4.  A published snapshot is the work of one \<open>Fill\<close> that was run, and holds
  exactly the entries that \<open>newAccessUser\<close> built from the records the directory sent
  to that \<open>Fill\<close>, one entry for each record that passes (\<open>sort.Slice\<close> permutes the
  slice it is given).  So every entry has a nonzero fob or QR number and comes from a
  record that was sent, whose ID and attributes are not nil, whose \<open>keyfobID\<close> or
  \<open>qrID\<close> reads as a nonzero number and whose \<open>buildingAccessApprover\<close> is not empty.
  A record that was sent and fails one of these gives no entry, and the fetch it is
  part of still returns a nil error.
\<close>

theorem snapshot_entries_valid:
  assumes "\<forall>lt xs. mset (sort_Slice L lt xs) = mset xs"
      and "state (run L acts newCache) = Some snapshot"
  shows "\<exists>k. DoFill k \<in> set acts \<and>
           ListUsers k = Inr (List.map_filter newAccessUser (fetched k)) \<and>
           mset snapshot = mset (List.map_filter newAccessUser (fetched k)) \<and>
           (\<forall>r \<in> set (fetched k). \<exists>f users. members k f 50 = Inr users \<and> r \<in> set users) \<and>
           (\<forall>r \<in> set (fetched k).
              (newAccessUser r = None) =
                (ID r = None \<or> Attributes r = None \<or>
                 (\<exists>attr. Attributes r = Some attr \<and>
                    (fst (Atoi (firstElOrZeroVal (index_attr attr ''keyfobID''))) = 0 \<and>
                     fst (Atoi (firstElOrZeroVal (index_attr attr ''qrID''))) = 0 \<or>
                     firstElOrZeroVal (index_attr attr ''buildingAccessApprover'') = [])))) \<and>
           (\<forall>u \<in> set snapshot.
              (FobID u \<noteq> 0 \<or> QRID u \<noteq> 0) \<and>
              (\<exists>r \<in> set (fetched k). \<exists>uid attr.
                 newAccessUser r = Some u \<and> ID r = Some uid \<and> Attributes r = Some attr \<and>
                 UserID u = uid \<and>
                 FobID u = fst (Atoi (firstElOrZeroVal (index_attr attr ''keyfobID''))) \<and>
                 QRID u = fst (Atoi (firstElOrZeroVal (index_attr attr ''qrID''))) \<and>
                 firstElOrZeroVal (index_attr attr ''buildingAccessApprover'') \<noteq> []))"
proof -
  let ?mf = "\<lambda>k. List.map_filter newAccessUser (fetched k)"
  have "\<forall>us. state newCache = Some us \<longrightarrow>
      (\<exists>k \<in> {k. DoFill k \<in> set acts}. ListUsers k = Inr (?mf k) \<and> mset us = mset (?mf k))"
    by (simp add: newCache_def)
  moreover have "\<forall>k. DoFill k \<in> set acts \<longrightarrow> k \<in> {k. DoFill k \<in> set acts}"
    by simp
  ultimately have "\<forall>us. state (run L acts newCache) = Some us \<longrightarrow>
      (\<exists>k \<in> {k. DoFill k \<in> set acts}. ListUsers k = Inr (?mf k) \<and> mset us = mset (?mf k))"
    by (rule built_run [OF assms(1)])
  with assms(2) obtain k where k: "DoFill k \<in> set acts" "ListUsers k = Inr (?mf k)"
      "mset snapshot = mset (?mf k)"
    by blast
  from k(3) have same: "set snapshot = set (?mf k)"
    by (rule mset_eq_setD)
  have sent: "\<forall>r \<in> set (fetched k). \<exists>f users. members k f 50 = Inr users \<and> r \<in> set users"
    using fetched_sent by blast
  have entries: "\<forall>u \<in> set snapshot.
      (FobID u \<noteq> 0 \<or> QRID u \<noteq> 0) \<and>
      (\<exists>r \<in> set (fetched k). \<exists>uid attr.
         newAccessUser r = Some u \<and> ID r = Some uid \<and> Attributes r = Some attr \<and>
         UserID u = uid \<and>
         FobID u = fst (Atoi (firstElOrZeroVal (index_attr attr ''keyfobID''))) \<and>
         QRID u = fst (Atoi (firstElOrZeroVal (index_attr attr ''qrID''))) \<and>
         firstElOrZeroVal (index_attr attr ''buildingAccessApprover'') \<noteq> [])"
  proof
    fix u
    assume "u \<in> set snapshot"
    with same obtain r where r: "r \<in> set (fetched k)" "newAccessUser r = Some u"
      by (auto simp: List.map_filter_def)
    from r(2) obtain uid attr where
      "ID r = Some uid" "Attributes r = Some attr"
      "fst (Atoi (firstElOrZeroVal (index_attr attr ''keyfobID''))) \<noteq> 0 \<or>
       fst (Atoi (firstElOrZeroVal (index_attr attr ''qrID''))) \<noteq> 0"
      "firstElOrZeroVal (index_attr attr ''buildingAccessApprover'') \<noteq> []"
      "u = \<lparr> UserID = uid,
            FobID = fst (Atoi (firstElOrZeroVal (index_attr attr ''keyfobID''))),
            QRID = fst (Atoi (firstElOrZeroVal (index_attr attr ''qrID''))),
            TTL = 86400000 \<rparr>"
      unfolding newAccessUser_Some_iff by blast
    with r show "(FobID u \<noteq> 0 \<or> QRID u \<noteq> 0) \<and>
      (\<exists>r \<in> set (fetched k). \<exists>uid attr.
         newAccessUser r = Some u \<and> ID r = Some uid \<and> Attributes r = Some attr \<and>
         UserID u = uid \<and>
         FobID u = fst (Atoi (firstElOrZeroVal (index_attr attr ''keyfobID''))) \<and>
         QRID u = fst (Atoi (firstElOrZeroVal (index_attr attr ''qrID''))) \<and>
         firstElOrZeroVal (index_attr attr ''buildingAccessApprover'') \<noteq> [])"
      by auto
  qed
  from k sent entries show ?thesis
    using newAccessUser_None_iff by blast
qed

lemma fetched_serving: "records \<noteq> [] \<Longrightarrow> fetched (serving records) = records"
  by (simp add: fetched_def serving_def numeral_2_eq_2)

theorem snapshot_entries_valid_witness:
  "state (run (golib length_digest) [DoFill (serving [rec_a, rec_none, rec_b])] newCache) =
     Some [user_a, user_b] \<and>
   fetched (serving [rec_a, rec_none, rec_b]) = [rec_a, rec_none, rec_b] \<and>
   newAccessUser rec_none = None \<and>
   (\<exists>k. DoFill k \<in> set [DoFill (serving [rec_a, rec_none, rec_b])] \<and>
        mset [user_a, user_b] = mset (List.map_filter newAccessUser (fetched k)) \<and>
        (\<exists>r \<in> set (fetched k). newAccessUser r = Some user_a))"
proof -
  have srt: "\<forall>lt xs. mset (sort_Slice (golib length_digest) lt xs) = mset xs"
    by (simp add: golib_def mset_insertionSort)
  have st: "state (run (golib length_digest) [DoFill (serving [rec_a, rec_none, rec_b])] newCache) =
     Some [user_a, user_b]"
    by (simp add: run_fill_ab)
  from snapshot_entries_valid [OF srt st]
  obtain k where "DoFill k \<in> set [DoFill (serving [rec_a, rec_none, rec_b])]"
    "mset [user_a, user_b] = mset (List.map_filter newAccessUser (fetched k))"
    "\<forall>u \<in> set [user_a, user_b]. \<exists>r \<in> set (fetched k). newAccessUser r = Some u"
    by blast
  then have "\<exists>k. DoFill k \<in> set [DoFill (serving [rec_a, rec_none, rec_b])] \<and>
        mset [user_a, user_b] = mset (List.map_filter newAccessUser (fetched k)) \<and>
        (\<exists>r \<in> set (fetched k). newAccessUser r = Some user_a)"
    by auto
  with st show ?thesis
    by (simp add: fetched_serving newAccessUser_rec_none)
qed

subsection \<open>Claims about \<open>Fill\<close>\<close>

text \<open>
  Claim C1.  When the fetch succeeds, \<open>Fill\<close> compares the fingerprint of the sorted
  list with the stored one.  If they are equal the cache is unchanged and no waiter is
  signalled.  If they differ, the sorted list and its fingerprint are installed in one
  critical section, the set of watchers is the same and every registered channel holds
  a signal.  On a cache whose fingerprint is still the empty string they always differ.
\<close>

theorem Fill_replaces_iff_changed:
  assumes "ListUsers k = Inr users"
  shows "(calculateUsersHash L (Some (sort_Slice L (\<lambda>i j. FobID i < FobID j) users)) = hash c
            \<longrightarrow> Fill L k c = (None, c)) \<and>
         (calculateUsersHash L (Some (sort_Slice L (\<lambda>i j. FobID i < FobID j) users)) \<noteq> hash c
            \<longrightarrow> fst (Fill L k c) = None \<and>
                state (snd (Fill L k c)) = Some (sort_Slice L (\<lambda>i j. FobID i < FobID j) users) \<and>
                hash (snd (Fill L k c)) =
                  calculateUsersHash L (Some (sort_Slice L (\<lambda>i j. FobID i < FobID j) users)) \<and>
                dom (watchers (snd (Fill L k c))) = dom (watchers c) \<and>
                (\<forall>ch \<in> dom (watchers c). watchers (snd (Fill L k c)) ch = Some True)) \<and>
         (hash c = []
            \<longrightarrow> calculateUsersHash L (Some (sort_Slice L (\<lambda>i j. FobID i < FobID j) users)) \<noteq> hash c)"
  using assms
  by (auto simp: Fill_def Let_def dom_send_all send_all_Some calculateUsersHash_nonempty)

theorem Fill_replaces_iff_changed_witness:
  "Fill (golib length_digest) (serving [rec_a, rec_none, rec_b]) (Wait_enter 1 newCache) =
     (None, \<lparr> state = Some [user_a, user_b], hash = ''000000000000000000000000000000000000000000000000000000000000004f'',
              watchers = [1 \<mapsto> True] \<rparr>) \<and>
   Fill (golib length_digest) (serving [rec_a, rec_none, rec_b])
     \<lparr> state = Some [user_a, user_b], hash = ''000000000000000000000000000000000000000000000000000000000000004f'',
       watchers = [2 \<mapsto> False] \<rparr> =
     (None, \<lparr> state = Some [user_a, user_b], hash = ''000000000000000000000000000000000000000000000000000000000000004f'',
              watchers = [2 \<mapsto> False] \<rparr>)"
proof -
  let ?L = "golib length_digest"
  let ?k = "serving [rec_a, rec_none, rec_b]"
  let ?c = "\<lparr> state = Some [user_a, user_b], hash = ''000000000000000000000000000000000000000000000000000000000000004f'',
       watchers = [2 \<mapsto> False] \<rparr>"
  have first: "fst (Fill ?L ?k (Wait_enter 1 newCache)) = None"
    using Fill_replaces_iff_changed [OF ListUsers_ab, of ?L "Wait_enter 1 newCache"]
    by (simp add: Wait_enter_def newCache_def)
  have second: "Fill ?L ?k ?c = (None, ?c)"
    using Fill_replaces_iff_changed [OF ListUsers_ab, of ?L ?c]
    by (simp add: sort_ab hash_ab)
  from first second Fill_first show ?thesis
    by (simp add: prod_eq_iff)
qed

text \<open>
  When \<open>ListUsers\<close> returns an error (the token, the transport, the deadline), \<open>Fill\<close>
  returns it and the cache is the one it was called on: slice, fingerprint and watchers
  with their buffers are the same, so no waiter is signalled.  As long as no later
  \<open>Fill\<close> succeeds, \<open>Load\<close> returns what it returned before.
\<close>

lemma Fill_error_keeps_cache:
  assumes "ListUsers k = Inl err"
  shows "Fill L k c = (Some err, c) \<and>
         (\<forall>acts. \<not> list_ex succeeds acts \<longrightarrow> Load (run L acts (snd (Fill L k c))) = Load c)"
  using assms by (simp add: Fill_error Load_run)

lemma Fill_error_keeps_cache_example:
  "Fill (golib length_digest) unreachable newCache =
     (Some (Wrapped ''getting token: '' (Error ''connection refused'')), newCache) \<and>
   Load (run (golib length_digest) [DoFill unreachable, WaitEnter 1, DoFill unreachable]
          (snd (Fill (golib length_digest) unreachable newCache))) = (None, [])"
proof -
  have quiet: "\<not> list_ex succeeds [DoFill unreachable, WaitEnter 1, DoFill unreachable]"
    by (simp add: ListUsers_unreachable)
  note inst = Fill_error_keeps_cache [OF ListUsers_unreachable, of "golib length_digest" newCache]
  from inst have "Fill (golib length_digest) unreachable newCache =
     (Some (Wrapped ''getting token: '' (Error ''connection refused'')), newCache)"
    by (rule conjunct1)
  moreover from inst quiet
  have "Load (run (golib length_digest) [DoFill unreachable, WaitEnter 1, DoFill unreachable]
          (snd (Fill (golib length_digest) unreachable newCache))) = Load newCache"
    by blast
  ultimately show ?thesis by (simp add: Load_def newCache_def)
qed

lemma ListUsers_error_status: "ListUsers error_status = Inr []"
  by (simp add: ListUsers_def error_status_def numeral_2_eq_2)

lemma sort_Nil: "sort_Slice (golib S) lt [] = []"
  by (simp add: golib_def insertionSort_def)

lemma json_Nil: "json_Marshal (golib S) (Some []) = ''[]''"
  by (simp add: json_Marshal_def)

text \<open>
  Claim C6 fails for the failures of the fetch that \<open>ListUsers\<close> does not report.  The
  request for a page of members drops the reply and looks at the error of the call
  only, so an error status of the endpoint (authorization, rate limit, server error)
  leaves \<open>users\<close> nil and ends the loop as the empty page does: \<open>ListUsers\<close> returns the
  entries read so far and a nil error.  With the members \<open>a\<close> and \<open>b\<close> in the cache and
  a waiter registered, a \<open>Fill\<close> that meets such a directory returns a nil error,
  replaces the snapshot by the empty list and signals the waiter, unless the digest
  function collides on the two JSON texts.
\<close>

theorem Fill_error_status_replaces_snapshot:
  \<open>ListUsers error_status = Inr [] \<and>
   (let c1 = Wait_enter 1 (snd (Fill (golib S) (serving [rec_a, rec_b]) newCache));
        c2 = snd (Fill (golib S) error_status c1);
        collision =
          (S ''[{"userID":"a","qrID":1,"ttl":86400000},{"userID":"b","qrID":2,"ttl":86400000}]'' =
           S ''[]'')
    in state c1 = Some [user_a, user_b] \<and>
       fst (Fill (golib S) error_status c1) = None \<and>
       (c2 = c1) = collision \<and>
       state c2 = Some (if collision then [user_a, user_b] else []) \<and>
       watchers c2 1 = Some (\<not> collision))\<close>
proof -
  let ?L = "golib S"
  let ?h1 = "calculateUsersHash ?L (Some [user_a, user_b])"
  let ?h2 = "calculateUsersHash ?L (Some [])"
  have first: "snd (Fill ?L (serving [rec_a, rec_b]) newCache) =
      \<lparr> state = Some [user_a, user_b], hash = ?h1, watchers = Map.empty \<rparr>"
    by (simp add: Fill_def ListUsers_a_b sort_ab Let_def newCache_def send_all_def
        calculateUsersHash_nonempty [THEN not_sym])
  have coll: \<open>(?h1 = ?h2) =
      (S ''[{"userID":"a","qrID":1,"ttl":86400000},{"userID":"b","qrID":2,"ttl":86400000}]'' =
       S ''[]'')\<close>
    by (simp only: calculateUsersHash_eq_iff json_ab json_Nil Sum256_golib)
  have second: "Fill ?L error_status
        \<lparr> state = Some [user_a, user_b], hash = ?h1, watchers = [1 \<mapsto> False] \<rparr> =
      (None,
       if ?h1 = ?h2 then \<lparr> state = Some [user_a, user_b], hash = ?h1, watchers = [1 \<mapsto> False] \<rparr>
       else \<lparr> state = Some [], hash = ?h2, watchers = [1 \<mapsto> True] \<rparr>)"
    by (simp add: Fill_def ListUsers_error_status sort_Nil Let_def send_all_def fun_eq_iff)
  have c1: "Wait_enter 1 (snd (Fill ?L (serving [rec_a, rec_b]) newCache)) =
      \<lparr> state = Some [user_a, user_b], hash = ?h1, watchers = [1 \<mapsto> False] \<rparr>"
    by (simp add: first Wait_enter_def)
  show ?thesis
    unfolding Let_def c1 second coll [symmetric]
    by (simp add: ListUsers_error_status)
qed

text \<open>
  Claim C9.  In every cache reached from \<open>newCache\<close> the fingerprint is the empty string
  exactly when the slice is nil, and otherwise it is the fingerprint of the slice; the
  slice is nil exactly when no \<open>Fill\<close> has succeeded.  A \<open>Fill\<close> that returns a nil
  error leaves a non-nil slice (empty when the directory lists nobody) and a
  fingerprint of 64 characters.  No action changes one of slice and fingerprint without
  the other.
\<close>

theorem hash_empty_iff_state_nil:
  "(let c = run L acts newCache
    in (hash c = []) = (state c = None) \<and>
       hash c = (case state c of None \<Rightarrow> [] | Some us \<Rightarrow> calculateUsersHash L (Some us)) \<and>
       (state c = None) = (\<not> list_ex succeeds acts) \<and>
       (fst (Fill L k c) = None \<longrightarrow>
          state (snd (Fill L k c)) \<noteq> None \<and> length (hash (snd (Fill L k c))) = 64) \<and>
       (state (exec L a c) = state c) = (hash (exec L a c) = hash c))"
proof -
  have p: "paired (run L acts newCache)"
    by (rule paired_run [OF paired_newCache])
  have f: "fingerprinted L (run L acts newCache)"
    by (rule fingerprinted_run [OF fingerprinted_newCache])
  from p have "(hash (run L acts newCache) = []) = (state (run L acts newCache) = None)"
    by (simp add: paired_def)
  moreover from f have "hash (run L acts newCache) =
      (case state (run L acts newCache) of None \<Rightarrow> []
       | Some us \<Rightarrow> calculateUsersHash L (Some us))"
    by (simp add: fingerprinted_def)
  moreover note never_filled [of L acts] Fill_success_installed [OF p, of L k]
    exec_both_or_neither [OF f, of a]
  ultimately show ?thesis by (simp add: Let_def)
qed

theorem hash_empty_iff_state_nil_witness:
  "state (snd (Fill (golib length_digest) (serving []) newCache)) = Some [] \<and>
   length (hash (snd (Fill (golib length_digest) (serving []) newCache))) = 64 \<and>
   state newCache = None \<and> hash newCache = []"
proof -
  have ok: "fst (Fill (golib length_digest) (serving []) (run (golib length_digest) [] newCache)) = None"
    by (simp add: Fill_def ListUsers_serving_Nil Let_def run_def)
  have "state (snd (Fill (golib length_digest) (serving []) newCache)) = Some []"
    by (simp add: Fill_def ListUsers_serving_Nil Let_def newCache_def calculateUsersHash_nonempty [THEN not_sym]
        golib_def insertionSort_def)
  with ok hash_empty_iff_state_nil [of "golib length_digest" "[]" "serving []" DoLoad]
  show ?thesis by (simp add: Let_def run_def newCache_def)
qed

subsection \<open>The fingerprint and the order of the fetch\<close>

lemma sorted_perm_unique:
  assumes "sorted_wrt (\<lambda>a b. \<not> FobID b < FobID a) rs"
      and "sorted_wrt (\<lambda>a b. \<not> FobID b < FobID a) ss"
      and "mset rs = mset ss"
      and "distinct (map FobID rs)"
  shows "rs = ss"
proof -
  have "mset (map FobID rs) = mset (map FobID ss)"
    using assms(3) by simp
  with assms(4) have dss: "distinct (map FobID ss)"
    using mset_eq_imp_distinct_iff by blast
  have "sorted (map FobID rs)" "sorted (map FobID ss)"
    using assms(1,2) by (simp_all add: sorted_wrt_map not_less)
  moreover have "set (map FobID rs) = set (map FobID ss)"
    using assms(3) by (metis mset_eq_setD set_map)
  ultimately have keys: "map FobID rs = map FobID ss"
    using assms(4) dss by (intro sorted_distinct_set_unique)
  have "inj_on FobID (set rs)"
    using assms(4) by (simp add: distinct_map)
  moreover have "set ss = set rs"
    using assms(3) by (metis mset_eq_setD)
  ultimately have "inj_on FobID (set rs \<union> set ss)" by simp
  with keys show ?thesis by (simp add: inj_on_map_eq_map)
qed

lemma sink_set: "set (sink lt x ys) = insert x (set ys)"
  using mset_sink [of lt x ys, THEN arg_cong, of set_mset] by simp

lemma sorted_sink:
  "sorted_wrt (\<lambda>a b. FobID b \<le> FobID a) ys \<Longrightarrow>
   sorted_wrt (\<lambda>a b. FobID b \<le> FobID a) (sink (\<lambda>i j. FobID i < FobID j) x ys)"
  by (induction ys) (auto simp: sink_set)

lemma sorted_fold_sink:
  "sorted_wrt (\<lambda>a b. FobID b \<le> FobID a) acc \<Longrightarrow>
   sorted_wrt (\<lambda>a b. FobID b \<le> FobID a) (fold (sink (\<lambda>i j. FobID i < FobID j)) xs acc)"
  by (induction xs arbitrary: acc) (simp_all add: sorted_sink)

lemma sorted_insertionSort:
  "sorted_wrt (\<lambda>a b. \<not> FobID b < FobID a) (insertionSort (\<lambda>i j. FobID i < FobID j) xs)"
  using sorted_fold_sink [of "[]" xs]
  by (simp add: insertionSort_def sorted_wrt_rev not_less)

lemma golib_sorts:
  "\<forall>xs. mset (sort_Slice (golib S) (\<lambda>i j. FobID i < FobID j) xs) = mset xs \<and>
        sorted_wrt (\<lambda>a b. \<not> FobID b < FobID a) (sort_Slice (golib S) (\<lambda>i j. FobID i < FobID j) xs)"
  by (simp add: golib_def mset_insertionSort sorted_insertionSort)

lemma Fill_permutation_distinct_keys:
  assumes srt: "\<forall>xs. mset (sort_Slice L (\<lambda>i j. FobID i < FobID j) xs) = mset xs \<and>
                  sorted_wrt (\<lambda>a b. \<not> FobID b < FobID a)
                    (sort_Slice L (\<lambda>i j. FobID i < FobID j) xs)"
      and "ListUsers k = Inr users" and "ListUsers k' = Inr users'"
      and "mset users' = mset users" and "distinct (map FobID users)"
      and "fst (Fill L k c) = None"
  shows "Fill L k' (snd (Fill L k c)) = (None, snd (Fill L k c))"
proof -
  let ?lt = "\<lambda>i j. FobID i < FobID j"
  have "mset (sort_Slice L ?lt users) = mset (sort_Slice L ?lt users')"
    using srt assms(4) by simp
  moreover have "distinct (map FobID (sort_Slice L ?lt users))"
  proof -
    have "mset (map FobID (sort_Slice L ?lt users)) = mset (map FobID users)"
      using srt by simp
    with assms(5) show ?thesis using mset_eq_imp_distinct_iff by blast
  qed
  ultimately have same: "sort_Slice L ?lt users = sort_Slice L ?lt users'"
    using srt by (intro sorted_perm_unique) simp_all
  have "hash (snd (Fill L k c)) = calculateUsersHash L (Some (sort_Slice L ?lt users))"
    using assms(2) by (simp add: Fill_def Let_def)
  with same assms(3) show ?thesis
    by (simp add: Fill_def Let_def)
qed

text \<open>
  Claim C2 fails on entries that share a \<open>FobID\<close>, as all members without a fob do
  (theirs is 0).  The directory lists the members \<open>a\<close> and \<open>b\<close>, both with a QR code
  only, first as \<open>a, b\<close> and at the next fetch as \<open>b, a\<close>.  The comparison
  \<open>users[i].FobID < users[j].FobID\<close> never holds, the sort leaves each list as fetched,
  and the two JSON texts differ.  The second \<open>Fill\<close> leaves the cache alone only if the
  digest function collides on these two texts; otherwise it installs the permuted list
  and signals the waiter.
\<close>

theorem Fill_permuted_ties:
  \<open>state (snd (Fill (golib S) (serving [rec_a, rec_b]) newCache)) = Some [user_a, user_b] \<and>
   (let c1 = Wait_enter 1 (snd (Fill (golib S) (serving [rec_a, rec_b]) newCache));
        c2 = snd (Fill (golib S) (serving [rec_b, rec_a]) c1);
        collision =
          (S ''[{"userID":"a","qrID":1,"ttl":86400000},{"userID":"b","qrID":2,"ttl":86400000}]'' =
           S ''[{"userID":"b","qrID":2,"ttl":86400000},{"userID":"a","qrID":1,"ttl":86400000}]'')
    in (c2 = c1) = collision \<and>
       state c2 = Some (if collision then [user_a, user_b] else [user_b, user_a]) \<and>
       watchers c2 1 = Some (\<not> collision))\<close>
proof -
  let ?L = "golib S"
  let ?h1 = "calculateUsersHash ?L (Some [user_a, user_b])"
  let ?h2 = "calculateUsersHash ?L (Some [user_b, user_a])"
  have first: "snd (Fill ?L (serving [rec_a, rec_b]) newCache) =
      \<lparr> state = Some [user_a, user_b], hash = ?h1, watchers = Map.empty \<rparr>"
    by (simp add: Fill_def ListUsers_a_b sort_ab Let_def newCache_def send_all_def
        calculateUsersHash_nonempty [THEN not_sym])
  have coll: \<open>(?h1 = ?h2) =
      (S ''[{"userID":"a","qrID":1,"ttl":86400000},{"userID":"b","qrID":2,"ttl":86400000}]'' =
       S ''[{"userID":"b","qrID":2,"ttl":86400000},{"userID":"a","qrID":1,"ttl":86400000}]'')\<close>
    by (simp only: calculateUsersHash_eq_iff json_ab json_ba Sum256_golib)
  have second: "snd (Fill ?L (serving [rec_b, rec_a])
        \<lparr> state = Some [user_a, user_b], hash = ?h1, watchers = [1 \<mapsto> False] \<rparr>) =
      (if ?h1 = ?h2 then \<lparr> state = Some [user_a, user_b], hash = ?h1, watchers = [1 \<mapsto> False] \<rparr>
       else \<lparr> state = Some [user_b, user_a], hash = ?h2, watchers = [1 \<mapsto> True] \<rparr>)"
    by (simp add: Fill_def ListUsers_b_a sort_ba Let_def send_all_def fun_eq_iff)
  have c1: "Wait_enter 1 (snd (Fill ?L (serving [rec_a, rec_b]) newCache)) =
      \<lparr> state = Some [user_a, user_b], hash = ?h1, watchers = [1 \<mapsto> False] \<rparr>"
    by (simp add: first Wait_enter_def)
  show ?thesis
    unfolding Let_def c1 second coll [symmetric]
    by (simp add: first users_ab_ne_ba)
qed

subsection \<open>Claims about \<open>Wait\<close>\<close>

text \<open>
  Claim C7.  \<open>Wait\<close> registers a channel of its own and deletes it before it returns,
  whether a signal or the timer ends the \<open>select\<close>.  Whatever the other goroutines do
  meanwhile (fills that signal the channel included), the cache after \<open>Wait\<close> is the
  cache they alone would have left; with nothing in between it is the cache before the
  call, and so it is after any number of such calls.
\<close>

theorem Wait_leaves_no_watcher:
  assumes "ch \<notin> dom (watchers c)" and "\<not> list_ex (uses_chan ch) others"
  shows "Wait L ch others c = run L others c \<and>
         ch \<notin> dom (watchers (Wait L ch others c)) \<and>
         Wait L ch [] c = c \<and>
         (\<forall>chs. (\<forall>x \<in> set chs. x \<notin> dom (watchers c)) \<longrightarrow> fold (\<lambda>x. Wait L x []) chs c = c)"
proof -
  have "Wait L ch [] c = c"
    using Wait_frame [OF assms(1), of "[]" L] by (simp add: run_def)
  with Wait_frame [OF assms, of L] Wait_removes [of ch L others c] Wait_cycles [of _ c L]
  show ?thesis by blast
qed

theorem Wait_leaves_no_watcher_witness:
  "Wait (golib length_digest) 5 [DoFill (serving [rec_a, rec_none, rec_b])] newCache =
     \<lparr> state = Some [user_a, user_b],
       hash = ''000000000000000000000000000000000000000000000000000000000000004f'',
       watchers = Map.empty \<rparr> \<and>
   fold (\<lambda>x. Wait (golib length_digest) x []) [1, 2, 3] newCache = newCache"
proof -
  have fresh: "5 \<notin> dom (watchers newCache)"
    by (simp add: newCache_def)
  have other: "\<not> list_ex (uses_chan 5) [DoFill (serving [rec_a, rec_none, rec_b])]"
    by simp
  have cyc: "\<forall>x \<in> set [1, 2, 3 :: nat]. x \<notin> dom (watchers newCache)"
    by (simp add: newCache_def)
  note inst = Wait_leaves_no_watcher [OF fresh other, of "golib length_digest"]
  from inst have a: "Wait (golib length_digest) 5 [DoFill (serving [rec_a, rec_none, rec_b])] newCache =
      run (golib length_digest) [DoFill (serving [rec_a, rec_none, rec_b])] newCache"
    by (rule conjunct1)
  from inst have "\<forall>chs. (\<forall>x \<in> set chs. x \<notin> dom (watchers newCache)) \<longrightarrow>
      fold (\<lambda>x. Wait (golib length_digest) x []) chs newCache = newCache"
    by blast
  with cyc have b: "fold (\<lambda>x. Wait (golib length_digest) x []) [1, 2, 3] newCache = newCache"
    by blast
  from a b show ?thesis
    by (simp only: run_fill_ab simp_thms)
qed

subsection \<open>Claims about the Keycloak loop\<close>

lemma int64_id: "- (2 ^ 63) \<le> x \<Longrightarrow> x < 2 ^ 63 \<Longrightarrow> int64 x = x"
  by (simp add: int64_def)

lemma quot_2_pos: "0 \<le> l \<Longrightarrow> quot l 2 = l div 2"
  by (cases "l = 0") (simp_all add: quot_def)

lemma nextRetry_unset: "nextRetry resync 0 = min resync (375 * Millisecond)"
  by (simp add: nextRetry_def int64_def quot_def Millisecond_def min_def)

lemma nextRetry_grow:
  assumes "0 < l" "l \<le> resync" "resync < 2 ^ 62"
  shows "nextRetry resync l = min resync (l * 3 div 2)"
proof -
  have eq: "l + l div 2 = l * 3 div 2" by presburger
  from assms have "l * 3 div 2 < 2 ^ 63" by simp
  moreover from assms have "- (2 ^ 63) \<le> l * 3 div 2" by simp
  ultimately have "int64 (l * 3 div 2) = l * 3 div 2" by (simp add: int64_id)
  with assms eq show ?thesis
    by (simp add: nextRetry_def quot_2_pos Let_def min_def)
qed

lemma spec_delay_bounds:
  "0 < resync \<Longrightarrow> 0 < spec_delay resync n \<and> spec_delay resync n \<le> resync"
proof (induction n)
  case 0
  then show ?case by (simp add: Millisecond_def)
next
  case (Suc n)
  then have "0 < spec_delay resync n" by simp
  then have "0 < spec_delay resync n * 3 div 2" by presburger
  with Suc.prems show ?case by simp
qed

lemma nextRetry_backoff:
  assumes "0 < resync" "resync < 2 ^ 62"
  shows "nextRetry resync (case n of 0 \<Rightarrow> 0 | Suc m \<Rightarrow> spec_delay resync m) =
         spec_delay resync n"
proof (cases n)
  case 0
  then show ?thesis by (simp add: nextRetry_unset)
next
  case (Suc m)
  from spec_delay_bounds [OF assms(1), of m] assms(2)
  have "nextRetry resync (spec_delay resync m) = min resync (spec_delay resync m * 3 div 2)"
    by (intro nextRetry_grow) simp_all
  with Suc show ?thesis by simp
qed

lemma sleeps_loop_v2:
  assumes "0 < resync" "resync < 2 ^ 62"
  shows "sleeps (loop_v2 resync (case n of 0 \<Rightarrow> 0 | Suc m \<Rightarrow> spec_delay resync m) errs) =
         spec_sleeps resync n errs"
proof (induction errs arbitrary: n)
  case Nil
  show ?case by simp
next
  case (Cons err errs)
  show ?case
  proof (cases err)
    case None
    with Cons.IH [of 0] show ?thesis by simp
  next
    case (Some e)
    with Cons.IH [of "Suc n"] nextRetry_backoff [OF assms, of n] show ?thesis by simp
  qed
qed

lemma sleeps_start_v1:
  assumes "0 < resync" "resync < 2 ^ 62"
  shows "list_all failed errs \<Longrightarrow>
         sleeps (start_v1 resync (case n of 0 \<Rightarrow> 0 | Suc m \<Rightarrow> spec_delay resync m) errs) =
         spec_sleeps resync n errs"
proof (induction errs arbitrary: n)
  case Nil
  show ?case by simp
next
  case (Cons err errs)
  from Cons.prems obtain e where e: "err = Some e" and rest: "list_all failed errs"
    by (cases err) simp_all
  from Cons.IH [OF rest, of "Suc n"] nextRetry_backoff [OF assms, of n] e show ?case
    by (simp add: Let_def)
qed

lemma nextRetry_Hour_0: "nextRetry Hour 0 = 375000000"
  by (simp add: nextRetry_def int64_def quot_def Millisecond_def Hour_def)

lemma nextRetry_Hour_1: "nextRetry Hour 375000000 = 562500000"
  by (simp add: nextRetry_def int64_def quot_def Hour_def)

lemma nextRetry_Hour_2: "nextRetry Hour 562500000 = 843750000"
  by (simp add: nextRetry_def int64_def quot_def Hour_def)

text \<open>
  Claim C3, as stated, fails: with the default resync interval of one hour the first
  delay after a failure is 375 ms, not 250 ms (the 250 ms are grown by a half before the
  first sleep), three failures in a row sleep 375 ms, 562.5 ms and 843.75 ms, and the
  failure after a success sleeps 375 ms again.
\<close>

theorem backoff_starts_at_250ms_counterexample:
  "sleeps (keycloakLoop_v2 Hour [Some (Error ''x''), Some (Error ''x''), Some (Error ''x'')]) =
     [375000000, 562500000, 843750000] \<and>
   sleeps (keycloakLoop_v2 Hour [Some (Error ''x''), Some (Error ''x''), Some (Error ''x'')]) \<noteq>
     [250 * Millisecond, 375 * Millisecond, 562500000] \<and>
   sleeps (keycloakLoop_v2 Hour [Some (Error ''x''), None, Some (Error ''x'')]) =
     [375000000, 375000000] \<and>
   sleeps (keycloakLoop_v1 Hour [Some (Error ''x''), Some (Error ''x''), Some (Error ''x'')]) =
     [375000000, 562500000, 843750000]"
  by (simp add: keycloakLoop_v2_def keycloakLoop_v1_def nextRetry_Hour_0 nextRetry_Hour_1
      nextRetry_Hour_2 Millisecond_def)

text \<open>
  Claim C3, amended.  For a resync interval between 0 and \<open>2 ^ 62\<close> nanoseconds the
  delays the loop sleeps are those of \<open>spec_delay\<close>: after the first failure
  375 ms (250 ms and a half of it), after each further failure in a row 1.5 times the
  delay before, rounded down to the nanosecond, each clamped at the resync interval.
  This holds of both versions of the loop while the calls fail.  In the revised loop a
  success sleeps nothing and the failure after it sleeps 375 ms again.
\<close>

theorem backoff_sequence:
  assumes "0 < resync" and "resync < 2 ^ 62"
  shows "sleeps (keycloakLoop_v2 resync errs) = spec_sleeps resync 0 errs \<and>
         (list_all failed errs \<longrightarrow>
            sleeps (keycloakLoop_v1 resync errs) = spec_sleeps resync 0 errs)"
  using sleeps_loop_v2 [OF assms, of 0 errs] sleeps_start_v1 [OF assms, of errs 0]
  by (simp add: keycloakLoop_v2_def keycloakLoop_v1_def)

theorem backoff_sequence_witness:
  "sleeps (keycloakLoop_v2 Hour
     [Some (Error ''x''), Some (Error ''x''), Some (Error ''x''), None, Some (Error ''x'')]) =
     [375000000, 562500000, 843750000, 375000000] \<and>
   sleeps (keycloakLoop_v2 (500 * Millisecond) [Some (Error ''x''), Some (Error ''x''), Some (Error ''x'')]) =
     [375000000, 500000000, 500000000] \<and>
   sleeps (keycloakLoop_v1 (500 * Millisecond) [Some (Error ''x''), Some (Error ''x''), Some (Error ''x'')]) =
     [375000000, 500000000, 500000000]"
proof -
  have h: "0 < Hour" "Hour < 2 ^ 62" "0 < 500 * Millisecond" "500 * Millisecond < 2 ^ 62"
    by (simp_all add: Hour_def Millisecond_def)
  have d: "spec_delay Hour 0 = 375000000" "spec_delay Hour (Suc 0) = 562500000"
    "spec_delay Hour (Suc (Suc 0)) = 843750000"
    "spec_delay (500 * Millisecond) 0 = 375000000"
    "spec_delay (500 * Millisecond) (Suc 0) = 500000000"
    "spec_delay (500 * Millisecond) (Suc (Suc 0)) = 500000000"
    by (simp_all add: Hour_def Millisecond_def)
  show ?thesis
    using backoff_sequence [OF h(1,2)] backoff_sequence [OF h(3,4)]
    by (simp add: d del: spec_delay.simps)
qed

text \<open>
  Claim C5 does not hold of either version of the loop.  In the revised one a failed
  \<open>Fill\<close> is followed by the sleep and then by the receive of \<open>for range refresh\<close>: the
  retry waits for a trigger.  In the first one a pass that succeeds goes on to the sleep
  and to \<open>goto start\<close>: after a success the loop sleeps 375 ms and fetches again, and
  never returns to the receive.  What the revised loop does after a success and the
  first one after a failure is what the claim says.
\<close>

theorem keycloakLoop_after_Fill:
  "loop_v2 resync l (Some e # errs) =
     AwaitTrigger # CallFill # Sleep (nextRetry resync l) # loop_v2 resync (nextRetry resync l) errs \<and>
   hd (loop_v2 resync l' errs) = AwaitTrigger \<and>
   start_v1 resync l (None # errs) =
     CallFill # Sleep (nextRetry resync 0) # start_v1 resync (nextRetry resync 0) errs \<and>
   AwaitTrigger \<notin> set (start_v1 resync l errs) \<and>
   loop_v2 resync l (None # errs) = AwaitTrigger # CallFill # loop_v2 resync 0 errs \<and>
   start_v1 resync l (Some e # errs) =
     CallFill # Sleep (nextRetry resync l) # start_v1 resync (nextRetry resync l) errs \<and>
   keycloakLoop_v2 Hour [Some (Error ''sync''), None] =
     [AwaitTrigger, CallFill, Sleep 375000000, AwaitTrigger, CallFill, AwaitTrigger] \<and>
   keycloakLoop_v1 Hour [None, None] =
     [AwaitTrigger, CallFill, Sleep 375000000, CallFill, Sleep 375000000]"
proof -
  have "hd (loop_v2 resync l' errs) = AwaitTrigger"
    by (cases errs) simp_all
  moreover have "AwaitTrigger \<notin> set (start_v1 resync l errs)"
    by (induction errs arbitrary: l) (simp_all add: Let_def)
  moreover have "keycloakLoop_v2 Hour [Some (Error ''sync''), None] =
     [AwaitTrigger, CallFill, Sleep 375000000, AwaitTrigger, CallFill, AwaitTrigger]"
    by (simp add: keycloakLoop_v2_def nextRetry_unset Hour_def Millisecond_def)
  moreover have "keycloakLoop_v1 Hour [None, None] =
     [AwaitTrigger, CallFill, Sleep 375000000, CallFill, Sleep 375000000]"
    by (simp add: keycloakLoop_v1_def nextRetry_unset Hour_def Millisecond_def Let_def)
  ultimately show ?thesis by (simp add: Let_def)
qed

subsection \<open>Claims about the handlers\<close>

lemma reply_v1_412: "(reply_v1 L r c = WriteHeader 412) = (state c = None)"
  by (auto simp: reply_v1_def Load_def WriteHeader_def Encode_def)

lemma healthz_v2_500: "(healthz_v2 c = WriteHeader 500) = (state c = None)"
  by (auto simp: healthz_v2_def Load_def WriteHeader_def)

lemma healthz_v2_204: "(healthz_v2 c = WriteHeader 204) = (state c \<noteq> None)"
  by (auto simp: healthz_v2_def Load_def WriteHeader_def)

lemma reply_v2_null:
  "paired c \<Longrightarrow> (reply_v2 L r c = Encode L [] None) = (state c = None)"
  by (auto simp: reply_v2_def Load_def WriteHeader_def Encode_def paired_def)

text \<open>
  Claim C8.  A reader of a cache that no \<open>Fill\<close> has filled yet is told so.  In the first
  version \<open>GET /v1/fobs\<close> answers 412 with no header and no body exactly when no
  \<open>Fill\<close> has succeeded by the time of its \<open>Load\<close> (after the wait, when the request
  asks for one); a request whose \<open>wait\<close> does not parse is answered 400 before the cache
  is read.  In the revised version \<open>/healthz\<close> answers 500 exactly as long as no \<open>Fill\<close>
  has succeeded and 204 from then on, and \<open>GET /v1/fobs\<close> answers \<open>null\<close> with an empty
  \<open>ETag\<close> exactly as long.  A filled cache that lists nobody is answered with \<open>[]\<close>.
\<close>

theorem unwarmed_cache_is_signalled:
  assumes "ch \<notin> dom (watchers (run L before newCache))"
      and "\<not> list_ex (uses_chan ch) others"
  shows "(wait r = [] \<longrightarrow>
            (fst (fobs_v1 L ch others r (run L before newCache)) = WriteHeader 412) =
            (\<not> list_ex succeeds before)) \<and>
         (wait r \<noteq> [] \<and> ParseDuration L (wait r) = Inr d \<longrightarrow>
            (fst (fobs_v1 L ch others r (run L before newCache)) = WriteHeader 412) =
            (\<not> list_ex succeeds (before @ others))) \<and>
         (wait r \<noteq> [] \<and> ParseDuration L (wait r) = Inl err \<longrightarrow>
            fobs_v1 L ch others r (run L before newCache) =
              (http_Error (Error_string err) 400, run L before newCache)) \<and>
         (healthz_v2 (run L before newCache) = WriteHeader 500) = (\<not> list_ex succeeds before) \<and>
         (healthz_v2 (run L before newCache) = WriteHeader 204) = list_ex succeeds before \<and>
         (wait r = [] \<longrightarrow>
            (fst (fobs_v2 L ch others r (run L before newCache)) = Encode L [] None) =
            (\<not> list_ex succeeds before))"
proof -
  have "paired (run L before newCache)"
    by (rule paired_run [OF paired_newCache])
  note v2 = reply_v2_null [OF this, of L r]
  have "Wait L ch others (run L before newCache) = run L (before @ others) newCache"
    using Wait_frame [OF assms, of L] by (simp add: run_append)
  then show ?thesis
    using never_filled [of L before] never_filled [of L "before @ others"]
    by (auto simp: fobs_v1_def fobs_v2_def reply_v1_412 healthz_v2_500 healthz_v2_204 v2)
qed

theorem unwarmed_cache_is_signalled_witness:
  "fst (fobs_v1 (golib length_digest) 5 [] \<lparr> wait = [], if_none_match = [] \<rparr>
         (run (golib length_digest) [DoFill unreachable] newCache)) = WriteHeader 412 \<and>
   fst (fobs_v1 (golib length_digest) 5 [DoFill unreachable] \<lparr> wait = ''1s'', if_none_match = [] \<rparr>
         (run (golib length_digest) [] newCache)) = WriteHeader 412 \<and>
   fst (fobs_v1 (golib length_digest) 5 [] \<lparr> wait = ''soon'', if_none_match = [] \<rparr>
         (run (golib length_digest) [] newCache)) =
     http_Error ''time: invalid duration'' 400 \<and>
   healthz_v2 (run (golib length_digest) [DoFill unreachable] newCache) = WriteHeader 500 \<and>
   healthz_v2 (run (golib length_digest) [DoFill (serving [])] newCache) = WriteHeader 204 \<and>
   fst (fobs_v1 (golib length_digest) 5 [] \<lparr> wait = [], if_none_match = [] \<rparr>
         (run (golib length_digest) [DoFill (serving [])] newCache)) =
     \<lparr> status = 200,
       header = [(''ETag'', ''0000000000000000000000000000000000000000000000000000000000000002''),
                 (''Content-Type'', ''application/json'')],
       body = ''[]'' @ [CHR 0x0A] \<rparr> \<and>
   fst (fobs_v2 (golib length_digest) 5 [] \<lparr> wait = [], if_none_match = [] \<rparr>
         (run (golib length_digest) [DoFill unreachable] newCache)) =
     \<lparr> status = 200,
       header = [(''ETag'', []), (''Content-Type'', ''application/json'')],
       body = ''null'' @ [CHR 0x0A] \<rparr>"
proof -
  let ?L = "golib length_digest"
  have f1: "5 \<notin> dom (watchers (run ?L [DoFill unreachable] newCache))"
    by (simp add: run_def Fill_def ListUsers_unreachable newCache_def)
  have f2: "5 \<notin> dom (watchers (run ?L [] newCache))"
    by (simp add: run_def newCache_def)
  have f3: "5 \<notin> dom (watchers (run ?L [DoFill (serving [])] newCache))"
    by (simp add: run_fill_empty)
  have o1: "\<not> list_ex (uses_chan 5) []" by simp
  have o2: "\<not> list_ex (uses_chan 5) [DoFill unreachable]" by simp
  have p1: "ParseDuration ?L ''1s'' = Inr 1000000000"
    by (simp add: golib_def)
  have p2: "ParseDuration ?L ''soon'' = Inl (Error ''time: invalid duration'')"
    by (simp add: golib_def)
  have a: "fst (fobs_v1 ?L 5 [] \<lparr> wait = [], if_none_match = [] \<rparr>
         (run ?L [DoFill unreachable] newCache)) = WriteHeader 412"
    using unwarmed_cache_is_signalled [OF f1 o1, of "\<lparr> wait = [], if_none_match = [] \<rparr>"]
    by (simp add: ListUsers_unreachable)
  have b: "fst (fobs_v1 ?L 5 [DoFill unreachable] \<lparr> wait = ''1s'', if_none_match = [] \<rparr>
         (run ?L [] newCache)) = WriteHeader 412"
    using unwarmed_cache_is_signalled [OF f2 o2, of "\<lparr> wait = ''1s'', if_none_match = [] \<rparr>" 1000000000]
    by (simp add: ListUsers_unreachable p1)
  have c: "fst (fobs_v1 ?L 5 [] \<lparr> wait = ''soon'', if_none_match = [] \<rparr>
         (run ?L [] newCache)) = http_Error ''time: invalid duration'' 400"
    using unwarmed_cache_is_signalled [OF f2 o1, of "\<lparr> wait = ''soon'', if_none_match = [] \<rparr>" _
        "Error ''time: invalid duration''"]
    by (simp add: p2)
  have d: "healthz_v2 (run ?L [DoFill unreachable] newCache) = WriteHeader 500"
    using unwarmed_cache_is_signalled [OF f1 o1]
    by (simp add: ListUsers_unreachable)
  have e: "healthz_v2 (run ?L [DoFill (serving [])] newCache) = WriteHeader 204"
    using unwarmed_cache_is_signalled [OF f3 o1]
    by (simp add: ListUsers_serving_Nil)
  have f: "fst (fobs_v1 ?L 5 [] \<lparr> wait = [], if_none_match = [] \<rparr>
         (run ?L [DoFill (serving [])] newCache)) =
     \<lparr> status = 200,
       header = [(''ETag'', ''0000000000000000000000000000000000000000000000000000000000000002''),
                 (''Content-Type'', ''application/json'')],
       body = ''[]'' @ [CHR 0x0A] \<rparr>"
    by (simp add: run_fill_empty fobs_v1_def reply_v1_def Load_def Encode_def json_Marshal_def)
  have g: "fst (fobs_v2 ?L 5 [] \<lparr> wait = [], if_none_match = [] \<rparr>
         (run ?L [DoFill unreachable] newCache)) =
     \<lparr> status = 200,
       header = [(''ETag'', []), (''Content-Type'', ''application/json'')],
       body = ''null'' @ [CHR 0x0A] \<rparr>"
    using unwarmed_cache_is_signalled [OF f1 o1, of "\<lparr> wait = [], if_none_match = [] \<rparr>"]
    by (simp add: ListUsers_unreachable Encode_def json_Marshal_def)
  from a b c d e f g show ?thesis by blast
qed

end
